theory Spec2Isabelle
  imports Complex_Main "HOL-Library.AList"
begin

section \<open>JavaScript values and the engine\<close>

text \<open>
  A JavaScript string is a sequence of UTF-16 code units. The regular expressions of the
  source carry no \<open>u\<close> flag, so character classes, \<open>length\<close> and \<open>includes\<close> all work on
  code units; every letter of the source's letter class and phrase lists is a single unit.
\<close>

type_synonym jsstring = "nat list"

definition ascii :: "string \<Rightarrow> jsstring" where
  "ascii s = map of_char s"

text \<open>
  A JavaScript number is a double: a real number, an infinity, or \<open>NaN\<close>. The two zeros are
  one value here; no comparison tells them apart. \<open>js_less a b\<close> is \<open>a < b\<close>, false
  whenever an operand is \<open>NaN\<close>.
\<close>

datatype jsnum = Finite real | PosInfinity | NegInfinity | NaN

fun js_less :: "jsnum \<Rightarrow> jsnum \<Rightarrow> bool" where
  "js_less NaN y = False"
| "js_less x NaN = False"
| "js_less (Finite a) (Finite b) = (a < b)"
| "js_less (Finite a) PosInfinity = True"
| "js_less (Finite a) NegInfinity = False"
| "js_less PosInfinity y = False"
| "js_less NegInfinity NegInfinity = False"
| "js_less NegInfinity y = True"

text \<open>
  Two operations of the engine are taken as they come, without a definition of their own:
  \<open>String.prototype.toLowerCase\<close>, which follows the Unicode case tables of the engine's
  Unicode version, and the multiplication of doubles, which rounds. Every function below
  that reaches one of them takes the engine \<open>js\<close> as its first argument, and a statement
  about an arbitrary \<open>js\<close> holds whatever the two operations are.
\<close>

record engine =
  toLowerCase :: "jsstring \<Rightarrow> jsstring"
  multiply :: "jsnum \<Rightarrow> jsnum \<Rightarrow> jsnum"

section \<open>Strings\<close>

text \<open>
  \<open>String.prototype.trim\<close> and the class \<open>\s\<close> use the same set: the ECMAScript
  WhiteSpace and LineTerminator code units.
\<close>

definition isWhiteSpace :: "nat \<Rightarrow> bool" where
  "isWhiteSpace c \<longleftrightarrow>
     c \<in> set [0x9, 0xA, 0xB, 0xC, 0xD, 0x20, 0xA0, 0x1680, 0x2028, 0x2029, 0x202F, 0x205F,
              0x3000, 0xFEFF]
     \<or> (0x2000 \<le> c \<and> c \<le> 0x200A)"

definition trim :: "jsstring \<Rightarrow> jsstring" where
  "trim s = rev (dropWhile isWhiteSpace (rev (dropWhile isWhiteSpace s)))"

text \<open>
  \<open>s.replace(/\s+/g, ' ')\<close>: every maximal run of white space becomes one
  space.
\<close>

function collapseWhitespace :: "jsstring \<Rightarrow> jsstring" where
  "collapseWhitespace [] = []"
| "collapseWhitespace (c # cs) =
     (if isWhiteSpace c then 0x20 # collapseWhitespace (dropWhile isWhiteSpace cs)
      else c # collapseWhitespace cs)"
  by pat_completeness auto
termination
  by (relation "measure length") (auto simp: length_dropWhile_le less_Suc_eq_le)

definition startsWith :: "jsstring \<Rightarrow> jsstring \<Rightarrow> bool" where
  "startsWith s w \<longleftrightarrow> take (length w) s = w"

text \<open>
  \<open>s.includes(w)\<close> (the name alone is taken in Isar): \<open>w\<close> occurs
  in \<open>s\<close> as a contiguous run of code units.
\<close>

fun str_includes :: "jsstring \<Rightarrow> jsstring \<Rightarrow> bool" where
  "str_includes [] w = (w = [])"
| "str_includes (c # cs) w = (startsWith (c # cs) w \<or> str_includes cs w)"

definition isDigit :: "nat \<Rightarrow> bool" where
  "isDigit c \<longleftrightarrow> 0x30 \<le> c \<and> c \<le> 0x39"

text \<open>\<open>/^\d+$/\<close>\<close>

definition pureDigits :: "jsstring \<Rightarrow> bool" where
  "pureDigits s \<longleftrightarrow> s \<noteq> [] \<and> list_all isDigit s"

text \<open>\<open>/^\d{10,}/\<close>, with no anchor at the end\<close>

definition startsWithTenDigits :: "jsstring \<Rightarrow> bool" where
  "startsWithTenDigits s \<longleftrightarrow> 10 \<le> length (takeWhile isDigit s)"

text \<open>\<open>/^\d{10,}$/\<close>\<close>

definition tenOrMoreDigits :: "jsstring \<Rightarrow> bool" where
  "tenOrMoreDigits s \<longleftrightarrow> 10 \<le> length s \<and> list_all isDigit s"

text \<open>
  The letter class \<open>[a-zA-Z...]\<close> shared by \<open>addWord\<close> and
  \<open>isUIText\<close>.
\<close>

definition isLetter :: "nat \<Rightarrow> bool" where
  "isLetter c \<longleftrightarrow>
     (0x61 \<le> c \<and> c \<le> 0x7A) \<or> (0x41 \<le> c \<and> c \<le> 0x5A)
     \<or> c \<in> set [0xE1, 0x10D, 0x10F, 0xE9, 0x11B, 0xED, 0x148, 0xF3, 0x159, 0x161, 0x165,
                0xFA, 0x16F, 0xFD, 0x17E,
                0xC1, 0x10C, 0x10E, 0xC9, 0x11A, 0xCD, 0x147, 0xD3, 0x158, 0x160, 0x164,
                0xDA, 0x16E, 0xDD, 0x17D,
                0xE4, 0xF6, 0xFC, 0xDF, 0xC4, 0xD6, 0xDC]"

definition letterCount :: "jsstring \<Rightarrow> nat" where
  "letterCount s = length (filter isLetter s)"

definition digitCount :: "jsstring \<Rightarrow> nat" where
  "digitCount s = length (filter isDigit s)"

subsection \<open>Patterns under the flag \<open>i\<close>\<close>

text \<open>
  Without the flag \<open>u\<close>, a pattern character and an input unit match under the flag \<open>i\<close>
  when \<open>Canonicalize\<close> gives both the same unit: the upper case of the unit when that is a
  single unit, except that a unit from U+0080 on is never taken to one below U+0080. The
  characters of the source's case-insensitive patterns are ASCII characters and U+00E2,
  U+0153, U+201C and U+201D. The only units that \<open>Canonicalize\<close> identifies with one of
  these are the two cases of an ASCII letter, U+00C2 with U+00E2, and U+0152 with U+0153
  (U+017F, U+0131 and U+212A have the upper cases \<open>S\<close>, \<open>I\<close> and \<open>K\<close>, which the exception
  rules out). \<open>foldCase\<close> is \<open>Canonicalize\<close> on these units and leaves every other unit alone,
  which no match can observe.
\<close>

definition foldCase :: "nat \<Rightarrow> nat" where
  "foldCase c =
     (if 0x61 \<le> c \<and> c \<le> 0x7A then c - 0x20
      else if c = 0xE2 then 0xC2
      else if c = 0x153 then 0x152
      else c)"

text \<open>The literal \<open>w\<close> matches at the start of \<open>s\<close>.\<close>

definition matchesAt :: "jsstring \<Rightarrow> jsstring \<Rightarrow> bool" where
  "matchesAt s w \<longleftrightarrow> map foldCase (take (length w) s) = map foldCase w"

text \<open>A literal occurs somewhere in \<open>s\<close>: \<open>s.match(/w/i)\<close> is not null.\<close>

fun occursIn :: "jsstring \<Rightarrow> jsstring \<Rightarrow> bool" where
  "occursIn [] w = (w = [])"
| "occursIn (c # cs) w = (matchesAt (c # cs) w \<or> occursIn cs w)"

text \<open>
  The part of the regular expression language that \<open>findRevealedAnswer\<close> uses in front of
  its capture group: literals, \<open>c*\<close> and \<open>c+\<close> for a character class \<open>c\<close>, \<open>(?:r)?\<close>,
  alternatives and sequences. The classes are \<open>\s\<close> and \<open>[:\s]\<close>, which hold no letter, so
  the flag \<open>i\<close> does not change them.
\<close>

datatype regex =
    Literal jsstring
  | ZeroOrMore "nat \<Rightarrow> bool"
  | OneOrMore "nat \<Rightarrow> bool"
  | Optional regex
  | Either regex regex
  | Sequence regex regex

text \<open>
  The backtracking matcher: \<open>matchEnds r s\<close> lists what can remain of \<open>s\<close> after a match of
  \<open>r\<close> at its start, in the order in which the matcher tries the choices (a greedy
  quantifier takes as much as it can first, the left alternative comes first). No
  quantified pattern of the source matches the empty string.
\<close>

fun matchEnds :: "regex \<Rightarrow> jsstring \<Rightarrow> jsstring list" where
  "matchEnds (Literal w) s = (if matchesAt s w then [drop (length w) s] else [])"
| "matchEnds (ZeroOrMore c) s =
     map (\<lambda>k. drop k s) (rev [0 ..< Suc (length (takeWhile c s))])"
| "matchEnds (OneOrMore c) s =
     map (\<lambda>k. drop k s) (rev [1 ..< Suc (length (takeWhile c s))])"
| "matchEnds (Optional r) s = matchEnds r s @ [s]"
| "matchEnds (Either a b) s = matchEnds a s @ matchEnds b s"
| "matchEnds (Sequence a b) s = concat (map (matchEnds b) (matchEnds a s))"

definition isLineTerminator :: "nat \<Rightarrow> bool" where
  "isLineTerminator c \<longleftrightarrow> c \<in> set [0xA, 0xD, 0x2028, 0x2029]"

text \<open>
  The group \<open>(.+)\<close> that ends every pattern: greedy, so it captures up to the next line
  terminator, and needs one unit at least.
\<close>

definition captureToLineEnd :: "jsstring \<Rightarrow> jsstring option" where
  "captureToLineEnd s =
     (let g = takeWhile (\<lambda>c. \<not> isLineTerminator c) s in if g = [] then None else Some g)"

fun firstCaptured :: "jsstring list \<Rightarrow> jsstring option" where
  "firstCaptured [] = None"
| "firstCaptured (s # ss) =
     (case captureToLineEnd s of Some g \<Rightarrow> Some g | None \<Rightarrow> firstCaptured ss)"

text \<open>
  \<open>text.match(/r(.+)/i)\<close>: the leftmost position where the pattern matches, and there the
  first choice that lets the group match; the value is the group, \<open>None\<close> when there is no
  match.
\<close>

fun searchCapture :: "regex \<Rightarrow> jsstring \<Rightarrow> jsstring option" where
  "searchCapture r [] = firstCaptured (matchEnds r [])"
| "searchCapture r (c # cs) =
     (case firstCaptured (matchEnds r (c # cs)) of
        Some g \<Rightarrow> Some g
      | None \<Rightarrow> searchCapture r cs)"

section \<open>The word store (utils/state.js)\<close>

text \<open>
  A JavaScript \<open>Map\<close> iterates in insertion order and \<open>set\<close> on a present key keeps the
  key's place: an association list read with \<open>map_of\<close> and written with \<open>AList.update\<close>.
  The arrays held by the two maps are never shared between them.
\<close>

type_synonym wordmap = "(jsstring \<times> jsstring list) list"

definition Map_has :: "wordmap \<Rightarrow> jsstring \<Rightarrow> bool" where
  "Map_has m k \<longleftrightarrow> map_of m k \<noteq> None"

definition Map_set :: "wordmap \<Rightarrow> jsstring \<Rightarrow> jsstring list \<Rightarrow> wordmap" where
  "Map_set m k v = AList.update k v m"

text \<open>
  \<open>saveRequests\<close> counts the calls of \<open>saveToStorage\<close>, whose result no caller reads.
\<close>

record store =
  wordDatabase :: wordmap
  reverseDatabase :: wordmap
  wordsIndexed :: nat
  answersHelped :: nat
  saveRequests :: nat

definition emptyStore :: store where
  "emptyStore = \<lparr>wordDatabase = [], reverseDatabase = [], wordsIndexed = 0,
     answersHelped = 0, saveRequests = 0\<rparr>"

text \<open>
  The values that reach \<open>addWord\<close>: strings from the page, and whatever \<open>JSON.parse\<close>
  produced on import. Of a number the code reads only whether it is zero.
\<close>

datatype json =
    JNull
  | JBool bool
  | JNum int
  | JStr jsstring
  | JArr "json list"
  | JObj "(jsstring \<times> json) list"

fun truthy :: "json \<Rightarrow> bool" where
  "truthy JNull = False"
| "truthy (JBool b) = b"
| "truthy (JNum n) = (n \<noteq> 0)"
| "truthy (JStr s) = (s \<noteq> [])"
| "truthy (JArr xs) = True"
| "truthy (JObj es) = True"

definition normalizeWord :: "engine \<Rightarrow> jsstring \<Rightarrow> jsstring" where
  "normalizeWord js word =
     (if word = [] then [] else collapseWhitespace (toLowerCase js (trim word)))"

definition uiWords :: "jsstring list" where
  "uiWords =
    [ascii ''learning mode'', ascii ''wocabee'', ascii ''seznam'',
     ascii ''bal'' @ [0xED] @ ascii ''k'' @ [0x16F],
     ascii ''settings'', ascii ''menu'', ascii ''next'', ascii ''back'', ascii ''indexed'',
     ascii ''words known'']"

text \<open>
  \<open>addWord\<close>, first half (the checks up to the phrase list): \<open>None\<close> is \<open>return false\<close>,
  \<open>Some (source, target)\<close> the normalized pair that goes on to the maps.
\<close>

definition addWord_checks :: "engine \<Rightarrow> json \<Rightarrow> json \<Rightarrow> (jsstring \<times> jsstring) option" where
  "addWord_checks js source0 target0 =
     (if \<not> truthy source0 \<or> \<not> truthy target0 then None
      else case (source0, target0) of
        (JStr s0, JStr t0) \<Rightarrow>
          (let source = normalizeWord js s0; target = normalizeWord js t0 in
           if source = [] \<or> target = [] \<or> length source < 1 \<or> length target < 1 then None
           else if source = target then None
           else if pureDigits source \<or> pureDigits target then None
           else if startsWithTenDigits source \<or> startsWithTenDigits target then None
           else if letterCount source < 2 \<or> letterCount target < 2 then None
           else if list_ex (\<lambda>w. str_includes (toLowerCase js source) w
                              \<or> str_includes (toLowerCase js target) w) uiWords then None
           else Some (source, target))
      | _ \<Rightarrow> None)"

text \<open>
  \<open>addWord\<close>, second half. \<open>translations\<close> is the array held by the map, so the push is a
  write to the map. The branch \<open>None\<close> cannot be taken: the key was set just before.
\<close>

definition addWord_insert :: "jsstring \<Rightarrow> jsstring \<Rightarrow> store \<Rightarrow> bool \<times> store" where
  "addWord_insert source target st =
     (let db1 = (if \<not> Map_has (wordDatabase st) source
                 then Map_set (wordDatabase st) source [] else wordDatabase st)
      in case map_of db1 source of
        None \<Rightarrow> (False, st\<lparr>wordDatabase := db1\<rparr>)
      | Some translations \<Rightarrow>
          if target \<notin> set translations then
            (let db2 = Map_set db1 source (translations @ [target]);
                 rdb1 = (if \<not> Map_has (reverseDatabase st) target
                         then Map_set (reverseDatabase st) target [] else reverseDatabase st);
                 rdb2 = (case map_of rdb1 target of
                           None \<Rightarrow> rdb1
                         | Some sources \<Rightarrow>
                             if source \<notin> set sources
                             then Map_set rdb1 target (sources @ [source]) else rdb1)
             in (True, st\<lparr>wordDatabase := db2, reverseDatabase := rdb2,
                          wordsIndexed := wordsIndexed st + 1,
                          saveRequests := saveRequests st + 1\<rparr>))
          else (False, st\<lparr>wordDatabase := db1\<rparr>))"

definition addWord :: "engine \<Rightarrow> json \<Rightarrow> json \<Rightarrow> store \<Rightarrow> bool \<times> store" where
  "addWord js source target st =
     (case addWord_checks js source target of
        None \<Rightarrow> (False, st)
      | Some (s, t) \<Rightarrow> addWord_insert s t st)"

text \<open>
  \<open>addWords\<close>: \<open>forEach\<close> over the pairs, counting the calls that
  returned true.
\<close>

fun addWords_loop :: "engine \<Rightarrow> (json \<times> json) list \<Rightarrow> nat \<Rightarrow> store \<Rightarrow> nat \<times> store" where
  "addWords_loop js [] addedCount st = (addedCount, st)"
| "addWords_loop js ((source, target) # ps) addedCount st =
     (case addWord js source target st of
        (True, st') \<Rightarrow> addWords_loop js ps (addedCount + 1) st'
      | (False, st') \<Rightarrow> addWords_loop js ps addedCount st')"

definition addWords :: "engine \<Rightarrow> (json \<times> json) list \<Rightarrow> store \<Rightarrow> nat \<times> store" where
  "addWords js wordPairs st = addWords_loop js wordPairs 0 st"

text \<open>
  \<open>rebuildReverseDatabase\<close>. The values of the primary mapping are arrays of strings in this
  model, so the branch for a value that is not an array is not taken. The inner \<open>forEach\<close>
  pushes without looking for the source first.
\<close>

fun rebuild_targets :: "jsstring \<Rightarrow> jsstring list \<Rightarrow> wordmap \<Rightarrow> wordmap" where
  "rebuild_targets source [] rdb = rdb"
| "rebuild_targets source (target # targets) rdb =
     (let rdb1 = (if \<not> Map_has rdb target then Map_set rdb target [] else rdb)
      in case map_of rdb1 target of
           None \<Rightarrow> rebuild_targets source targets rdb1
         | Some sources \<Rightarrow> rebuild_targets source targets (Map_set rdb1 target (sources @ [source])))"

fun rebuild_entries :: "wordmap \<Rightarrow> wordmap \<Rightarrow> wordmap" where
  "rebuild_entries [] rdb = rdb"
| "rebuild_entries ((source, targets) # entries) rdb =
     rebuild_entries entries (rebuild_targets source targets rdb)"

definition rebuildReverseDatabase :: "store \<Rightarrow> store" where
  "rebuildReverseDatabase st = st\<lparr>reverseDatabase := rebuild_entries (wordDatabase st) []\<rparr>"

text \<open>
  \<open>[...new Set(xs)]\<close>: the first occurrence of every element, in order.
\<close>

definition dedup :: "'a list \<Rightarrow> 'a list" where
  "dedup xs = rev (remdups (rev xs))"

definition partialMatches :: "engine \<Rightarrow> wordmap \<Rightarrow> jsstring \<Rightarrow> jsstring list" where
  "partialMatches js m lowerWord =
     concat (map snd (filter (\<lambda>(k, vs). str_includes (toLowerCase js k) lowerWord
                                      \<or> str_includes lowerWord (toLowerCase js k)) m))"

text \<open>\<open>None\<close> is the source's \<open>null\<close>.\<close>

definition findPartialMatch :: "engine \<Rightarrow> jsstring \<Rightarrow> store \<Rightarrow> jsstring list option" where
  "findPartialMatch js word st =
     (let lowerWord = toLowerCase js word;
          matches = partialMatches js (wordDatabase st) lowerWord
                    @ partialMatches js (reverseDatabase st) lowerWord
      in if 0 < length matches then Some (dedup matches) else None)"

definition findTranslation :: "engine \<Rightarrow> jsstring \<Rightarrow> store \<Rightarrow> jsstring list option" where
  "findTranslation js word0 st =
     (let word = normalizeWord js word0 in
      case map_of (wordDatabase st) word of
        Some translations \<Rightarrow> Some translations
      | None \<Rightarrow>
          (case map_of (reverseDatabase st) word of
             Some sources \<Rightarrow> Some sources
           | None \<Rightarrow> findPartialMatch js word st))"

definition totalWords :: "store \<Rightarrow> nat" where
  "totalWords st = length (wordDatabase st)"

definition totalTranslations :: "store \<Rightarrow> nat" where
  "totalTranslations st = foldl (\<lambda>sum arr. sum + length arr) 0 (map snd (wordDatabase st))"

definition clearDatabase :: "store \<Rightarrow> store" where
  "clearDatabase st = st\<lparr>wordDatabase := [], reverseDatabase := [], wordsIndexed := 0,
     answersHelped := 0, saveRequests := saveRequests st + 1\<rparr>"

subsection \<open>Export and import\<close>

text \<open>
  The serialized text is represented by the value it encodes: \<open>JSON.stringify\<close> and
  \<open>JSON.parse\<close> are the platform's codec, and a text that \<open>JSON.parse\<close> refuses is
  \<open>None\<close>. \<open>Object.fromEntries\<close> yields an ordinary object, whose own keys enumerate with
  the array indices first, in ascending order, and the other keys in insertion order.
\<close>

definition toIndex :: "jsstring \<Rightarrow> nat" where
  "toIndex k = foldl (\<lambda>a c. 10 * a + (c - 0x30)) 0 k"

definition isArrayIndex :: "jsstring \<Rightarrow> bool" where
  "isArrayIndex k \<longleftrightarrow>
     pureDigits k \<and> (k = [0x30] \<or> hd k \<noteq> 0x30) \<and> toIndex k < 2 ^ 32 - 1"

definition Object_fromEntries :: "(jsstring \<times> 'v) list \<Rightarrow> (jsstring \<times> 'v) list" where
  "Object_fromEntries m =
     sort_key (\<lambda>(k, v). toIndex k) (filter (\<lambda>(k, v). isArrayIndex k) m)
     @ filter (\<lambda>(k, v). \<not> isArrayIndex k) m"

definition exportDatabase :: "store \<Rightarrow> json" where
  "exportDatabase st =
     JObj (map (\<lambda>(source, targets). (source, JArr (map JStr targets)))
             (Object_fromEntries (wordDatabase st)))"

datatype exn = SyntaxError | TypeError

fun dec :: "nat \<Rightarrow> jsstring" where
  "dec n = (if n < 10 then [0x30 + n] else dec (n div 10) @ [0x30 + n mod 10])"

text \<open>
  \<open>Object.entries\<close>: throws on \<open>null\<close>, has nothing to list for a boolean or a number, and
  lists the indexed elements of a string or an array under their decimal indices.
\<close>

fun Object_entries :: "json \<Rightarrow> exn + (jsstring \<times> json) list" where
  "Object_entries JNull = Inl TypeError"
| "Object_entries (JBool b) = Inr []"
| "Object_entries (JNum n) = Inr []"
| "Object_entries (JStr s) = Inr (map (\<lambda>(i, c). (dec i, JStr [c])) (enumerate 0 s))"
| "Object_entries (JArr xs) = Inr (map (\<lambda>(i, x). (dec i, x)) (enumerate 0 xs))"
| "Object_entries (JObj es) = Inr es"

fun import_targets :: "engine \<Rightarrow> jsstring \<Rightarrow> json list \<Rightarrow> nat \<Rightarrow> store \<Rightarrow> nat \<times> store" where
  "import_targets js source [] imported st = (imported, st)"
| "import_targets js source (target # ts) imported st =
     (case addWord js (JStr source) target st of
        (True, st') \<Rightarrow> import_targets js source ts (imported + 1) st'
      | (False, st') \<Rightarrow> import_targets js source ts imported st')"

text \<open>\<open>Array.isArray(targets) ? targets : [targets]\<close>\<close>

fun targetArray :: "json \<Rightarrow> json list" where
  "targetArray (JArr xs) = xs"
| "targetArray targets = [targets]"

fun import_entries :: "engine \<Rightarrow> (jsstring \<times> json) list \<Rightarrow> nat \<Rightarrow> store \<Rightarrow> nat \<times> store" where
  "import_entries js [] imported st = (imported, st)"
| "import_entries js ((source, targets) # es) imported st =
     (case import_targets js source (targetArray targets) imported st of
        (imported', st') \<Rightarrow> import_entries js es imported' st')"

text \<open>
  The body of the \<open>try\<close> block: \<open>Inl\<close> is an exception on its way
  to the \<open>catch\<close>.
\<close>

definition importDatabase_try :: "engine \<Rightarrow> json option \<Rightarrow> store \<Rightarrow> exn + (nat \<times> store)" where
  "importDatabase_try js jsonString st =
     (case jsonString of
        None \<Rightarrow> Inl SyntaxError
      | Some data \<Rightarrow>
          (case Object_entries data of
             Inl e \<Rightarrow> Inl e
           | Inr es \<Rightarrow> Inr (import_entries js es 0 st)))"

text \<open>
  Both exceptions are raised before the first \<open>addWord\<close>, so the store the \<open>catch\<close> branch
  leaves behind is the one the call started with.
\<close>

definition importDatabase :: "engine \<Rightarrow> json option \<Rightarrow> store \<Rightarrow> nat \<times> store" where
  "importDatabase js jsonString st =
     (case importDatabase_try js jsonString st of
        Inl e \<Rightarrow> (0, st)
      | Inr r \<Rightarrow> r)"

subsection \<open>Sequences of store operations\<close>

datatype store_op =
    Add json json
  | AddMany "(json \<times> json) list"
  | Clear
  | ImportAll "json option"
  | Rebuild

fun apply_op :: "engine \<Rightarrow> store \<Rightarrow> store_op \<Rightarrow> store" where
  "apply_op js st (Add source target) = snd (addWord js source target st)"
| "apply_op js st (AddMany wordPairs) = snd (addWords js wordPairs st)"
| "apply_op js st Clear = clearDatabase st"
| "apply_op js st (ImportAll jsonString) = snd (importDatabase js jsonString st)"
| "apply_op js st Rebuild = rebuildReverseDatabase st"

definition run_ops :: "engine \<Rightarrow> store_op list \<Rightarrow> store \<Rightarrow> store" where
  "run_ops js ops st = foldl (apply_op js) st ops"

section \<open>The page (utils/dom.js)\<close>

text \<open>
  The code reads the page through \<open>querySelector\<close>, \<open>querySelectorAll\<close> and a few properties
  of the elements found. An element is the record of the properties read; \<open>nodeId\<close> is the
  identity of the node, which \<open>new Set\<close> compares. \<open>className\<close> is the string that
  \<open>el.className.toString()\<close> yields, empty when \<open>el.className\<close> is falsy, and \<open>classList\<close> the
  tokens of the class attribute. The sides of the bounding rectangle are finite doubles,
  which the code only compares; \<open>parsedFontSize\<close> is \<open>parseFloat(style.fontSize)\<close>.
  \<open>hasCorrectDescendant\<close> tells whether \<open>el.querySelector('.correct, [class*="correct"]')\<close>
  finds an element, \<open>dataCorrect\<close> is \<open>el.getAttribute('data-correct')\<close>.
\<close>

text \<open>
  The property \<open>value\<close> of an element: a string on form controls, a number on list items,
  meters and progress bars, an object where a form names a control \<open>value\<close>, and undefined
  elsewhere.
\<close>

datatype jsvalue = Undefined | StringValue jsstring | NumberValue jsnum | ObjectValue

fun truthyValue :: "jsvalue \<Rightarrow> bool" where
  "truthyValue Undefined = False"
| "truthyValue (StringValue s) = (s \<noteq> [])"
| "truthyValue (NumberValue n) = (n \<noteq> NaN \<and> n \<noteq> Finite 0)"
| "truthyValue ObjectValue = True"

text \<open>
  \<open>v.trim()\<close>: only a string has the method; on any other value the call raises a
  \<open>TypeError\<close>.
\<close>

fun value_trim :: "jsvalue \<Rightarrow> exn + jsstring" where
  "value_trim (StringValue s) = Inr (trim s)"
| "value_trim v = Inl TypeError"

record element =
  nodeId :: nat
  tagName :: string
  childCount :: nat
  textContent :: jsstring
  innerText :: jsstring
  className :: jsstring
  classList :: "jsstring list"
  inputValue :: jsvalue
  dataCorrect :: "jsstring option"
  hasCorrectDescendant :: bool
  rectWidth :: real
  rectHeight :: real
  rectTop :: real
  parsedFontSize :: jsnum

text \<open>
  A selector list, as \<open>find\<close> and \<open>findAll\<close> take it, is given by what \<open>querySelectorAll\<close>
  returns for each of its selectors, in order; \<open>None\<close> stands for a selector that throws.
\<close>

type_synonym 'e query = "'e list option list"

fun find :: "'e query \<Rightarrow> 'e option" where
  "find [] = None"
| "find (None # selectors) = find selectors"
| "find (Some [] # selectors) = find selectors"
| "find (Some (el # els) # selectors) = Some el"

fun findAll_results :: "'e query \<Rightarrow> 'e list" where
  "findAll_results [] = []"
| "findAll_results (None # selectors) = findAll_results selectors"
| "findAll_results (Some els # selectors) = els @ findAll_results selectors"

definition findAll :: "'e query \<Rightarrow> 'e list" where
  "findAll selectors = dedup (findAll_results selectors)"

text \<open>\<open>(element.textContent || element.innerText || '').trim()\<close>\<close>

definition getText :: "element \<Rightarrow> jsstring" where
  "getText el = trim (if textContent el \<noteq> [] then textContent el else innerText el)"

definition uiPatterns :: "jsstring list" where
  "uiPatterns =
    [ascii ''next'', ascii ''continue'', ascii ''skip'', ascii ''submit'', ascii ''check'',
     ascii ''ok'', ascii ''cancel'',
     ascii ''correct'', ascii ''wrong'', ascii ''right'', ascii ''error'', ascii ''success'',
     ascii ''loading'', ascii ''please wait'', ascii ''score'', ascii ''points'',
     ascii ''progress'',
     ascii ''login'', ascii ''logout'', ascii ''sign'', ascii ''register'', ascii ''password'',
     ascii ''menu'', ascii ''home'', ascii ''back'', ascii ''settings'', ascii ''help'',
     ascii ''wocabee'', ascii ''copyright'', [0xA9], ascii ''cookie'', ascii ''privacy'',
     ascii ''click'', ascii ''tap'', ascii ''press'', ascii ''select'', ascii ''choose'',
     ascii ''learning mode'', ascii ''wocabeehelper'', ascii ''indexed'', ascii ''words known'',
     ascii ''hint'', ascii ''answer'', ascii ''translation'',
     ascii ''seznam'', ascii ''bal'' @ [0xED] @ ascii ''k'' @ [0x16F],
     ascii ''bal'' @ [0xED] @ ascii ''k'', ascii ''nastaven'' @ [0xED],
     ascii ''odhl'' @ [0xE1] @ ascii ''sit'',
     ascii ''p'' @ [0x159] @ ascii ''ihl'' @ [0xE1] @ ascii ''sit'',
     ascii ''pokra'' @ [0x10D] @ ascii ''ovat'', ascii ''zp'' @ [0x11B] @ ascii ''t'',
     ascii ''dal'' @ [0x161] @ [0xED], ascii ''hotovo'',
     ascii ''spr'' @ [0xE1] @ ascii ''vn'' @ [0x11B], [0x161] @ ascii ''patn'' @ [0x11B],
     ascii ''chyba'', ascii ''body'', ascii ''sk'' @ [0xF3] @ ascii ''re'']"

text \<open>
  \<open>isUIText\<close>; the argument is a string at every call, so \<open>!text\<close>
  is the empty string.
\<close>

definition isUIText :: "engine \<Rightarrow> jsstring \<Rightarrow> bool" where
  "isUIText js text =
     (if text = [] then True
      else
        (let lowerText = trim (toLowerCase js text) in
         if pureDigits (trim text) then True
         else if tenOrMoreDigits (trim text) then True
         else if letterCount text < 2 then True
         else if digitCount text > letterCount text then True
         else if lowerText \<in> set uiPatterns then True
         else list_ex (\<lambda>pattern. str_includes lowerText pattern) uiPatterns))"

text \<open>
  What the code asks of the document in one pass: for every selector list the matches of
  its selectors, the elements that \<open>querySelectorAll('*')\<close> lists, and the height of the
  window, a whole number of pixels.
\<close>

record wordItem =
  itemId :: nat
  sourceWordMatches :: "element query"
  targetWordMatches :: "element query"
  cells :: "element list"

record page =
  prominentMatches :: "element query"
  allElements :: "element list"
  innerHeight :: nat
  questionWordMatches :: "element query"
  answerOptionsMatches :: "element query"
  answerInputMatches :: "element query"
  gameContainerMatches :: "element query"
  testContainerMatches :: "element query"
  wordPairMatches :: "wordItem query"
  correctFeedbackMatches :: "element query"
  incorrectFeedbackMatches :: "element query"
  highlightedCorrectMatches :: "element query"
  activeAnswerMatches :: "element query"
  revealedAnswerMatches :: "element query"
  correctOptionMatches :: "element query"

subsection \<open>\<open>findCurrentQuestion\<close>\<close>

text \<open>Strategy 1, the loop over the elements one prominent selector matched.\<close>

fun prominentScan :: "engine \<Rightarrow> element list \<Rightarrow> jsstring option" where
  "prominentScan js [] = None"
| "prominentScan js (el # els) =
     (if tagName el = ''INPUT'' \<or> tagName el = ''BUTTON'' \<or> tagName el = ''A''
      then prominentScan js els
      else if childCount el > 3 then prominentScan js els
      else
        (let text = getText el in
         if text \<noteq> [] \<and> length text \<ge> 1 \<and> length text < 100 then
           (if isUIText js (toLowerCase js text) then prominentScan js els
            else if rectWidth el > 0 \<and> rectHeight el > 0 then Some text
            else prominentScan js els)
         else prominentScan js els))"

fun prominentStrategy :: "engine \<Rightarrow> element query \<Rightarrow> jsstring option" where
  "prominentStrategy js [] = None"
| "prominentStrategy js (None # selectors) = prominentStrategy js selectors"
| "prominentStrategy js (Some elements # selectors) =
     (case prominentScan js elements of
        Some text \<Rightarrow> Some text
      | None \<Rightarrow> prominentStrategy js selectors)"

text \<open>
  \<open>parseFloat(style.fontSize) || 12\<close>: zero and \<open>NaN\<close> are
  falsy.
\<close>

definition fontSizeOf :: "element \<Rightarrow> jsnum" where
  "fontSizeOf el =
     (if parsedFontSize el = NaN \<or> parsedFontSize el = Finite 0 then Finite 12
      else parsedFontSize el)"

text \<open>\<open>/^H[1-6]$/\<close>\<close>

definition isHeadingTag :: "string \<Rightarrow> bool" where
  "isHeadingTag t \<longleftrightarrow> t \<in> set [''H1'', ''H2'', ''H3'', ''H4'', ''H5'', ''H6'']"

text \<open>\<open>/word|question|vocab/i\<close> on the class name\<close>

definition wordLikeClass :: "jsstring \<Rightarrow> bool" where
  "wordLikeClass c \<longleftrightarrow>
     c \<noteq> [] \<and> list_ex (\<lambda>w. occursIn c w) [ascii ''word'', ascii ''question'', ascii ''vocab'']"

text \<open>
  The score. The three products are the engine's; the half of the window height is exact,
  and so are the comparisons.
\<close>

definition elementScore :: "engine \<Rightarrow> nat \<Rightarrow> element \<Rightarrow> jsnum" where
  "elementScore js windowInnerHeight el =
     (let isInViewport = (rectTop el \<ge> 0 \<and> rectTop el < real windowInnerHeight / 2);
          score = fontSizeOf el;
          score = (if isInViewport then multiply js score (Finite 2) else score);
          score = (if isHeadingTag (tagName el) then multiply js score (Finite 1.5) else score);
          score = (if wordLikeClass (className el) then multiply js score (Finite 2) else score)
      in score)"

text \<open>
  Strategy 2, the loop with its two variables \<open>bestCandidate\<close> and
  \<open>bestScore\<close>.
\<close>

fun scoringLoop ::
  "engine \<Rightarrow> nat \<Rightarrow> element list \<Rightarrow> jsstring option \<Rightarrow> jsnum \<Rightarrow> jsstring option" where
  "scoringLoop js h [] bestCandidate bestScore = bestCandidate"
| "scoringLoop js h (el # els) bestCandidate bestScore =
     (if tagName el \<in> set [''SCRIPT'', ''STYLE'', ''INPUT'', ''BUTTON'', ''A'', ''HTML'',
                            ''BODY'', ''HEAD'']
      then scoringLoop js h els bestCandidate bestScore
      else if childCount el > 2 then scoringLoop js h els bestCandidate bestScore
      else
        (let text = getText el in
         if text = [] \<or> length text < 2 \<or> length text > 100
         then scoringLoop js h els bestCandidate bestScore
         else if isUIText js (toLowerCase js text)
         then scoringLoop js h els bestCandidate bestScore
         else if rectWidth el = 0 \<or> rectHeight el = 0
         then scoringLoop js h els bestCandidate bestScore
         else
           (let score = elementScore js h el in
            if js_less bestScore score then scoringLoop js h els (Some text) score
            else scoringLoop js h els bestCandidate bestScore)))"

definition scoringStrategy :: "engine \<Rightarrow> page \<Rightarrow> jsstring option" where
  "scoringStrategy js p = scoringLoop js (innerHeight p) (allElements p) None (Finite 0)"

definition selectorStrategy :: "engine \<Rightarrow> page \<Rightarrow> jsstring option" where
  "selectorStrategy js p =
     (case find (questionWordMatches p) of
        None \<Rightarrow> None
      | Some question \<Rightarrow>
          (let text = getText question in
           if text \<noteq> [] \<and> \<not> isUIText js (toLowerCase js text) then Some text else None))"

definition findCurrentQuestion :: "engine \<Rightarrow> page \<Rightarrow> jsstring option" where
  "findCurrentQuestion js p =
     (case prominentStrategy js (prominentMatches p) of
        Some text \<Rightarrow> Some text
      | None \<Rightarrow>
          (case scoringStrategy js p of
             Some bestCandidate \<Rightarrow> Some bestCandidate
           | None \<Rightarrow> selectorStrategy js p))"

subsection \<open>\<open>detectExerciseType\<close>\<close>

definition findAnswerOptions :: "page \<Rightarrow> element list" where
  "findAnswerOptions p =
     filter (\<lambda>opt. let text = getText opt in text \<noteq> [] \<and> length text > 0 \<and> length text < 200)
       (findAll (answerOptionsMatches p))"

definition findAnswerInput :: "page \<Rightarrow> element option" where
  "findAnswerInput p = find (answerInputMatches p)"

text \<open>
  \<open>extractWordPairs\<close>, the body of its \<open>forEach\<close>: the pairs one
  item contributes.
\<close>

definition itemPairs :: "wordItem \<Rightarrow> (jsstring \<times> jsstring) list" where
  "itemPairs item =
     (case (find (sourceWordMatches item), find (targetWordMatches item)) of
        (Some source, Some target) \<Rightarrow>
          (let sourceText = getText source; targetText = getText target in
           if sourceText \<noteq> [] \<and> targetText \<noteq> [] then [(sourceText, targetText)] else [])
      | _ \<Rightarrow>
          (case cells item of
             c0 # c1 # rest \<Rightarrow>
               (let sourceText = getText c0; targetText = getText c1 in
                if sourceText \<noteq> [] \<and> targetText \<noteq> [] then [(sourceText, targetText)] else [])
           | _ \<Rightarrow> []))"

definition extractWordPairs :: "page \<Rightarrow> (jsstring \<times> jsstring) list" where
  "extractWordPairs p = concat (map itemPairs (findAll (wordPairMatches p)))"

datatype exerciseType = Selection | Typing | Game | Test | Vocabulary

text \<open>\<open>None\<close> is the source's \<open>null\<close>.\<close>

definition detectExerciseType :: "page \<Rightarrow> exerciseType option" where
  "detectExerciseType p =
     (let options = findAnswerOptions p in
      if length options \<ge> 2 then Some Selection
      else
        (let input = findAnswerInput p in
         if input \<noteq> None then Some Typing
         else if find (gameContainerMatches p) \<noteq> None then Some Game
         else if find (testContainerMatches p) \<noteq> None then Some Test
         else
           (let pairs = extractWordPairs p in
            if length pairs > 0 then Some Vocabulary else None)))"

section \<open>The feedback tracker (content/observer.js)\<close>

subsection \<open>\<open>findCorrectAnswer\<close>\<close>

text \<open>
  Method 1. \<open>input && input.value && input.value.trim().length > 0\<close>: the element is any
  match of the answer-input selectors, which include \<open>#answer\<close>, \<open>[name*="answer"]\<close> and
  \<open>[id*="answer"]\<close>, so its \<open>value\<close> need not be a string; a truthy value that is not a string
  has no \<open>trim\<close>, and the \<open>TypeError\<close> leaves the function (\<open>Inl\<close>). \<open>Inr None\<close> passes on to the
  next method.
\<close>

definition answerFromInput :: "page \<Rightarrow> exn + jsstring option" where
  "answerFromInput p =
     (case findAnswerInput p of
        None \<Rightarrow> Inr None
      | Some input \<Rightarrow>
          if \<not> truthyValue (inputValue input) then Inr None
          else
            (case value_trim (inputValue input) of
               Inl e \<Rightarrow> Inl e
             | Inr answer \<Rightarrow> if length answer > 0 then Inr (Some answer) else Inr None))"

text \<open>
  Method 2: the text of the highlighted option is returned as it is, empty or
  not.
\<close>

definition answerFromHighlighted :: "page \<Rightarrow> jsstring option" where
  "answerFromHighlighted p =
     (case find (highlightedCorrectMatches p) of
        None \<Rightarrow> None
      | Some highlightedCorrect \<Rightarrow> Some (getText highlightedCorrect))"

text \<open>Method 3.\<close>

definition answerFromActive :: "engine \<Rightarrow> page \<Rightarrow> jsstring option" where
  "answerFromActive js p =
     (case find (activeAnswerMatches p) of
        None \<Rightarrow> None
      | Some activeAnswer \<Rightarrow>
          (let answer = getText activeAnswer in
           if answer \<noteq> [] \<and> \<not> isUIText js (toLowerCase js answer) then Some answer else None))"

text \<open>
  Method 4. The alternatives of
  \<open>/(correct|right|good|great|excellent|super|...|...|!)/gi\<close>, in order; the seventh and the
  eighth are U+00E2 U+0153 U+201C and U+00E2 U+0153 U+201D.
\<close>

definition feedbackPhrases :: "jsstring list" where
  "feedbackPhrases =
    [ascii ''correct'', ascii ''right'', ascii ''good'', ascii ''great'', ascii ''excellent'',
     ascii ''super'', [0xE2, 0x153, 0x201C], [0xE2, 0x153, 0x201D], ascii ''!'']"

text \<open>
  \<open>text.replace(/(...)/gi, '')\<close>: from left to right, the first alternative that matches
  at a position is removed (it covers the unit at the position and the \<open>length w - 1\<close> units
  after it) and the scan goes on behind it.
\<close>

function stripPhrases :: "jsstring \<Rightarrow> jsstring" where
  "stripPhrases [] = []"
| "stripPhrases (c # cs) =
     (case List.find (matchesAt (c # cs)) feedbackPhrases of
        Some w \<Rightarrow> stripPhrases (drop (length w - 1) cs)
      | None \<Rightarrow> c # stripPhrases cs)"
  by pat_completeness auto
termination
  by (relation "measure length") (auto simp: less_Suc_eq_le)

definition answerFromFeedback :: "page \<Rightarrow> jsstring option" where
  "answerFromFeedback p =
     (case find (correctFeedbackMatches p) of
        None \<Rightarrow> None
      | Some successEl \<Rightarrow>
          (let text = getText successEl;
               filtered = trim (stripPhrases text)
           in if filtered \<noteq> [] \<and> length filtered > 0 \<and> length filtered < 100
              then Some filtered else None))"

text \<open>The four methods in order; \<open>Inr None\<close> is the final \<open>return null\<close>.\<close>

definition findCorrectAnswer :: "engine \<Rightarrow> page \<Rightarrow> exn + jsstring option" where
  "findCorrectAnswer js p =
     (case answerFromInput p of
        Inl e \<Rightarrow> Inl e
      | Inr (Some answer) \<Rightarrow> Inr (Some answer)
      | Inr None \<Rightarrow>
          (case answerFromHighlighted p of
             Some answer \<Rightarrow> Inr (Some answer)
           | None \<Rightarrow>
               (case answerFromActive js p of
                  Some answer \<Rightarrow> Inr (Some answer)
                | None \<Rightarrow> Inr (answerFromFeedback p))))"

subsection \<open>\<open>findRevealedAnswer\<close>\<close>

definition colonOrSpace :: "nat \<Rightarrow> bool" where
  "colonOrSpace c \<longleftrightarrow> c = 0x3A \<or> isWhiteSpace c"

text \<open>
  The five patterns of method 3, each without its final group \<open>(.+)\<close>:
  \<open>/correct\s*(?:answer)?(?:\s*is)?[:\s]+(.+)/i\<close>, the same with \<open>right\<close>,
  \<open>/should\s*(?:be|have been)[:\s]+(.+)/i\<close>, \<open>/answer[:\s]+(.+)/i\<close> and
  \<open>/solution[:\s]+(.+)/i\<close>.
\<close>

definition answerPatterns :: "regex list" where
  "answerPatterns =
    [Sequence (Literal (ascii ''correct''))
       (Sequence (ZeroOrMore isWhiteSpace)
          (Sequence (Optional (Literal (ascii ''answer'')))
             (Sequence (Optional (Sequence (ZeroOrMore isWhiteSpace) (Literal (ascii ''is''))))
                (OneOrMore colonOrSpace)))),
     Sequence (Literal (ascii ''right''))
       (Sequence (ZeroOrMore isWhiteSpace)
          (Sequence (Optional (Literal (ascii ''answer'')))
             (Sequence (Optional (Sequence (ZeroOrMore isWhiteSpace) (Literal (ascii ''is''))))
                (OneOrMore colonOrSpace)))),
     Sequence (Literal (ascii ''should''))
       (Sequence (ZeroOrMore isWhiteSpace)
          (Sequence (Either (Literal (ascii ''be'')) (Literal (ascii ''have been'')))
             (OneOrMore colonOrSpace))),
     Sequence (Literal (ascii ''answer'')) (OneOrMore colonOrSpace),
     Sequence (Literal (ascii ''solution'')) (OneOrMore colonOrSpace)]"

text \<open>
  The loop over the patterns: the group of the first pattern that matches, trimmed. A
  group that matched is not empty, so \<open>match && match[1]\<close> holds with the match.
\<close>

fun firstPatternMatch :: "regex list \<Rightarrow> jsstring \<Rightarrow> jsstring option" where
  "firstPatternMatch [] text = None"
| "firstPatternMatch (pattern # patterns) text =
     (case searchCapture pattern text of
        Some g \<Rightarrow> Some (trim g)
      | None \<Rightarrow> firstPatternMatch patterns text)"

definition revealedFromFeedback :: "page \<Rightarrow> jsstring option" where
  "revealedFromFeedback p =
     (case find (incorrectFeedbackMatches p) of
        None \<Rightarrow> None
      | Some errorEl \<Rightarrow> firstPatternMatch answerPatterns (getText errorEl))"

text \<open>Method 4, the loop over the answer options.\<close>

fun markedOption :: "element list \<Rightarrow> jsstring option" where
  "markedOption [] = None"
| "markedOption (opt # opts) =
     (if ascii ''correct'' \<in> set (classList opt)
         \<or> dataCorrect opt = Some (ascii ''true'')
         \<or> hasCorrectDescendant opt
      then Some (getText opt)
      else markedOption opts)"

text \<open>
  The four methods in order. No call of the function can raise: every property it reads
  and every method it calls exists on every element and every string.
\<close>

definition findRevealedAnswer :: "page \<Rightarrow> jsstring option" where
  "findRevealedAnswer p =
     (case find (revealedAnswerMatches p) of
        Some revealed \<Rightarrow> Some (getText revealed)
      | None \<Rightarrow>
          (case find (correctOptionMatches p) of
             Some correctOption \<Rightarrow> Some (getText correctOption)
           | None \<Rightarrow>
               (case revealedFromFeedback p of
                  Some answer \<Rightarrow> Some answer
                | None \<Rightarrow> markedOption (findAnswerOptions p))))"

subsection \<open>\<open>checkForFeedbackAndLearn\<close>\<close>

text \<open>
  \<open>lastQuestion\<close> is \<open>None\<close> for \<open>null\<close>. The spec's \<open>AwaitingResult(q)\<close> is
  \<open>lastQuestion = Some q\<close> with \<open>isWaitingForResult\<close>; \<open>Idle\<close> is \<open>isWaitingForResult\<close> false.
  \<open>notifications\<close> lists the calls of \<open>showLearningNotification\<close>, which adds an element
  of the extension's own to the page and raises nothing.
\<close>

datatype learnKind = Correct | Correction

record tracker =
  lastQuestion :: "jsstring option"
  isWaitingForResult :: bool
  notifications :: "(jsstring \<times> jsstring \<times> learnKind) list"

definition noValidQuestion :: "tracker \<Rightarrow> bool" where
  "noValidQuestion tr \<longleftrightarrow> (case lastQuestion tr of None \<Rightarrow> True | Some q \<Rightarrow> length q = 0)"

text \<open>
  In both functions the early \<open>return\<close> leaves the tracker alone; past it, the last
  statement clears \<open>isWaitingForResult\<close> whatever the extractor returned. When
  \<open>findCorrectAnswer\<close> raises, nothing has been written yet and the last statement is not
  reached: \<open>Inl\<close> is the exception, with tracker and store as they were at the call.
\<close>

definition learnFromCorrectAnswer ::
  "engine \<Rightarrow> page \<Rightarrow> tracker \<times> store \<Rightarrow> exn + tracker \<times> store" where
  "learnFromCorrectAnswer js p s =
     (case s of (tr, st) \<Rightarrow>
        if noValidQuestion tr then Inr (tr, st)
        else
          (case findCorrectAnswer js p of
             Inl e \<Rightarrow> Inl e
           | Inr found \<Rightarrow>
               Inr (case (lastQuestion tr, found) of
                      (Some q, Some correctAnswer) \<Rightarrow>
                        if length correctAnswer > 0 then
                          (case addWord js (JStr q) (JStr correctAnswer) st of
                             (True, st') \<Rightarrow>
                               (tr\<lparr>notifications :=
                                      notifications tr @ [(q, correctAnswer, Correct)],
                                   isWaitingForResult := False\<rparr>, st')
                           | (False, st') \<Rightarrow> (tr\<lparr>isWaitingForResult := False\<rparr>, st'))
                        else (tr\<lparr>isWaitingForResult := False\<rparr>, st)
                    | _ \<Rightarrow> (tr\<lparr>isWaitingForResult := False\<rparr>, st))))"

definition learnFromIncorrectAnswer ::
  "engine \<Rightarrow> page \<Rightarrow> tracker \<times> store \<Rightarrow> tracker \<times> store" where
  "learnFromIncorrectAnswer js p s =
     (case s of (tr, st) \<Rightarrow>
        if noValidQuestion tr then (tr, st)
        else
          (case (lastQuestion tr, findRevealedAnswer p) of
             (Some q, Some correctAnswer) \<Rightarrow>
               if length correctAnswer > 0 then
                 (case addWord js (JStr q) (JStr correctAnswer) st of
                    (True, st') \<Rightarrow>
                      (tr\<lparr>notifications := notifications tr @ [(q, correctAnswer, Correction)],
                          isWaitingForResult := False\<rparr>, st')
                  | (False, st') \<Rightarrow> (tr\<lparr>isWaitingForResult := False\<rparr>, st'))
               else (tr\<lparr>isWaitingForResult := False\<rparr>, st)
           | _ \<Rightarrow> (tr\<lparr>isWaitingForResult := False\<rparr>, st)))"

text \<open>
  \<open>checkForFeedbackAndLearn\<close>, first step: a question found on the page that differs from
  the tracked one replaces it, and the tracker waits for its result.
\<close>

definition trackQuestion :: "engine \<Rightarrow> page \<Rightarrow> tracker \<Rightarrow> tracker" where
  "trackQuestion js p tr =
     (let currentQuestion = findCurrentQuestion js p in
      case currentQuestion of
        Some q \<Rightarrow>
          if length q > 0 \<and> currentQuestion \<noteq> lastQuestion tr
          then tr\<lparr>lastQuestion := currentQuestion, isWaitingForResult := True\<rparr>
          else tr
      | None \<Rightarrow> tr)"

text \<open>
  The whole pass. Neither \<open>checkForFeedbackAndLearn\<close> nor its caller \<open>processChanges\<close> has a
  \<open>try\<close>, so an exception of \<open>learnFromCorrectAnswer\<close> ends the pass: the first component of
  the result is the exception that left the function, \<open>None\<close> for a normal return, and the
  second is the tracker and the store as the pass leaves them.
\<close>

definition checkForFeedbackAndLearn ::
  "engine \<Rightarrow> page \<Rightarrow> tracker \<times> store \<Rightarrow> exn option \<times> tracker \<times> store" where
  "checkForFeedbackAndLearn js p s =
     (case s of (tr0, st) \<Rightarrow>
        (let tr = trackQuestion js p tr0
         in if noValidQuestion tr then (None, tr, st)
            else
              (let correctFeedback = find (correctFeedbackMatches p)
               in case (if correctFeedback \<noteq> None \<and> isWaitingForResult tr
                        then learnFromCorrectAnswer js p (tr, st) else Inr (tr, st)) of
                    Inl e \<Rightarrow> (Some e, tr, st)
                  | Inr s1 \<Rightarrow>
                      (let incorrectFeedback = find (incorrectFeedbackMatches p)
                       in if incorrectFeedback \<noteq> None \<and> isWaitingForResult (fst s1)
                          then (None, learnFromIncorrectAnswer js p s1) else (None, s1)))))"

section \<open>Auxiliary notions for the statements\<close>

text \<open>The list a map holds under a key, empty when the key is absent.\<close>

definition listed :: "wordmap \<Rightarrow> jsstring \<Rightarrow> jsstring list" where
  "listed m k = (case map_of m k of None \<Rightarrow> [] | Some v \<Rightarrow> v)"

text \<open>
  The calls of \<open>addWord\<close> that an import makes, in order: one per element of every entry's
  target array.
\<close>

definition entry_pairs :: "(jsstring \<times> json) list \<Rightarrow> (json \<times> json) list" where
  "entry_pairs es =
     concat (map (\<lambda>(source, targets). map (\<lambda>target. (JStr source, target)) (targetArray targets)) es)"

text \<open>A pair that \<open>addWord\<close> does not refuse outright.\<close>

definition wellFormed :: "engine \<Rightarrow> json \<times> json \<Rightarrow> bool" where
  "wellFormed js p \<longleftrightarrow> addWord_checks js (fst p) (snd p) \<noteq> None"

text \<open>
  The reverse index holds \<open>s\<close> under \<open>t\<close> exactly when the primary
  mapping holds \<open>t\<close> under \<open>s\<close>.
\<close>

definition inverted :: "store \<Rightarrow> bool" where
  "inverted st \<longleftrightarrow>
     (\<forall>s t. s \<in> set (listed (reverseDatabase st) t) \<longleftrightarrow> t \<in> set (listed (wordDatabase st) s))"

text \<open>No white space at either end.\<close>

definition noEdgeSpace :: "jsstring \<Rightarrow> bool" where
  "noEdgeSpace s \<longleftrightarrow> s = [] \<or> (\<not> isWhiteSpace (hd s) \<and> \<not> isWhiteSpace (last s))"

text \<open>
  A pair as the store holds it: already normalized, and accepted by the checks again.
\<close>

definition storable :: "engine \<Rightarrow> jsstring \<Rightarrow> jsstring \<Rightarrow> bool" where
  "storable js k t \<longleftrightarrow> addWord_checks js (JStr k) (JStr t) = Some (k, t)"

text \<open>
  What every primary mapping built by \<open>addWord\<close> satisfies when normalizing twice is
  normalizing once: keys are distinct and every key holds a non-empty list of distinct
  targets, each storable under the key.
\<close>

definition clean :: "engine \<Rightarrow> wordmap \<Rightarrow> bool" where
  "clean js m \<longleftrightarrow>
     distinct (map fst m)
     \<and> (\<forall>k ts. map_of m k = Some ts \<longrightarrow>
           ts \<noteq> [] \<and> distinct ts \<and> (\<forall>t \<in> set ts. storable js k t))"

text \<open>The pairs of a mapping, key by key.\<close>

definition word_pairs :: "wordmap \<Rightarrow> (json \<times> json) list" where
  "word_pairs m = concat (map (\<lambda>(k, ts). map (\<lambda>t. (JStr k, JStr t)) ts) m)"

text \<open>
  An element that the scoring loop scores: none of its \<open>continue\<close> branches is
  taken.
\<close>

definition scoringCandidate :: "engine \<Rightarrow> element \<Rightarrow> bool" where
  "scoringCandidate js el \<longleftrightarrow>
     tagName el \<notin> set [''SCRIPT'', ''STYLE'', ''INPUT'', ''BUTTON'', ''A'', ''HTML'', ''BODY'', ''HEAD'']
     \<and> \<not> childCount el > 2
     \<and> \<not> (getText el = [] \<or> length (getText el) < 2 \<or> length (getText el) > 100)
     \<and> \<not> isUIText js (toLowerCase js (getText el))
     \<and> \<not> (rectWidth el = 0 \<or> rectHeight el = 0)"

text \<open>
  The elements that some selector of a selector list matches, each once however many
  selectors match it, and whether there is one at all.
\<close>

definition matches :: "'e query \<Rightarrow> 'e set" where
  "matches selectors = {el. \<exists>els. Some els \<in> set selectors \<and> el \<in> set els}"

definition matched :: "'e query \<Rightarrow> bool" where
  "matched selectors \<longleftrightarrow> matches selectors \<noteq> {}"

text \<open>
  The answer-option candidates that count for the classifier: the distinct matches of the
  answer-option selectors whose trimmed text has between 1 and 199 code units.
\<close>

definition countedOptions :: "page \<Rightarrow> element set" where
  "countedOptions p =
     {el \<in> matches (answerOptionsMatches p). 0 < length (getText el) \<and> length (getText el) < 200}"

text \<open>
  The store after a pass has taken \<open>found\<close> from an extractor for the question \<open>q\<close>: the
  pair goes to \<open>addWord\<close> when the answer is a non-empty string, and nothing is written
  otherwise.
\<close>

definition committed :: "engine \<Rightarrow> jsstring \<Rightarrow> jsstring option \<Rightarrow> store \<Rightarrow> store" where
  "committed js q found st =
     (case found of
        None \<Rightarrow> st
      | Some a \<Rightarrow> if a = [] then st else snd (addWord js (JStr q) (JStr a) st))"

text \<open>
  The first match of the answer-input selectors has a truthy \<open>value\<close> that is not a
  string.
\<close>

definition inputValueNotString :: "page \<Rightarrow> bool" where
  "inputValueNotString p \<longleftrightarrow>
     (case findAnswerInput p of
        None \<Rightarrow> False
      | Some input \<Rightarrow>
          (case inputValue input of
             NumberValue n \<Rightarrow> truthyValue (NumberValue n)
           | ObjectValue \<Rightarrow> True
           | _ \<Rightarrow> False))"

section \<open>Examples\<close>

text \<open>
  An engine for the examples. Its \<open>toLowerCase\<close> is the Unicode mapping of Basic Latin,
  Latin-1 Supplement and Latin Extended-A, the blocks that hold every letter of the
  source's letter class and of its phrase lists; U+0130 is the one code point of these
  blocks whose lower case has two units, and units of other blocks are left as they are.
  Its products of finite numbers are exact. On the strings and the numbers of the examples
  below, these are the values of every ECMAScript engine.
\<close>

definition lower_unit :: "nat \<Rightarrow> nat list" where
  "lower_unit c =
     (if 0x41 \<le> c \<and> c \<le> 0x5A then [c + 0x20]
      else if 0xC0 \<le> c \<and> c \<le> 0xDE \<and> c \<noteq> 0xD7 then [c + 0x20]
      else if c = 0x130 then [0x69, 0x307]
      else if c = 0x178 then [0xFF]
      else if (0x100 \<le> c \<and> c \<le> 0x137 \<or> 0x14A \<le> c \<and> c \<le> 0x177) \<and> even c then [c + 1]
      else if (0x139 \<le> c \<and> c \<le> 0x148 \<or> 0x179 \<le> c \<and> c \<le> 0x17E) \<and> odd c then [c + 1]
      else [c])"

definition latinLowerCase :: "jsstring \<Rightarrow> jsstring" where
  "latinLowerCase s = concat (map lower_unit s)"

definition isNegative :: "jsnum \<Rightarrow> bool" where
  "isNegative x \<longleftrightarrow> (case x of Finite a \<Rightarrow> a < 0 | NegInfinity \<Rightarrow> True | _ \<Rightarrow> False)"

fun exactTimes :: "jsnum \<Rightarrow> jsnum \<Rightarrow> jsnum" where
  "exactTimes (Finite a) (Finite b) = Finite (a * b)"
| "exactTimes NaN y = NaN"
| "exactTimes x NaN = NaN"
| "exactTimes x y =
     (if x = Finite 0 \<or> y = Finite 0 then NaN
      else if isNegative x = isNegative y then PosInfinity else NegInfinity)"

definition latinEngine :: engine where
  "latinEngine = \<lparr>toLowerCase = latinLowerCase, multiply = exactTimes\<rparr>"

text \<open>
  A visible leaf element in the upper half of the window, with a computed font size of 16
  pixels, at most one class, and no \<open>value\<close>.
\<close>

definition exampleElement :: "nat \<Rightarrow> string \<Rightarrow> jsstring \<Rightarrow> jsstring \<Rightarrow> element" where
  "exampleElement n tag cls txt =
     \<lparr>nodeId = n, tagName = tag, childCount = 0, textContent = txt, innerText = txt,
      className = cls, classList = (if cls = [] then [] else [cls]),
      inputValue = Undefined, dataCorrect = None, hasCorrectDescendant = False,
      rectWidth = 120, rectHeight = 24, rectTop = 40, parsedFontSize = Finite 16\<rparr>"

text \<open>A selector list none of whose \<open>n\<close> selectors matches.\<close>

definition noMatches :: "nat \<Rightarrow> 'e query" where
  "noMatches n = replicate n (Some [])"

text \<open>
  An empty document: no selector but \<open>*\<close> matches, in a window 600 pixels high.
  The number of selectors of every list is that of the source.
\<close>

definition blankPage :: page where
  "blankPage =
     \<lparr>prominentMatches = noMatches 15,
      allElements = [exampleElement 0 ''HTML'' [] [], exampleElement 1 ''HEAD'' [] [],
                     exampleElement 2 ''BODY'' [] []],
      innerHeight = 600,
      questionWordMatches = noMatches 9,
      answerOptionsMatches = noMatches 8,
      answerInputMatches = noMatches 7,
      gameContainerMatches = noMatches 3,
      testContainerMatches = noMatches 6,
      wordPairMatches = noMatches 8,
      correctFeedbackMatches = noMatches 9,
      incorrectFeedbackMatches = noMatches 9,
      highlightedCorrectMatches = noMatches 4,
      activeAnswerMatches = noMatches 4,
      revealedAnswerMatches = noMatches 8,
      correctOptionMatches = noMatches 4\<rparr>"

text \<open>A page that shows the question \<open>Katze\<close> in a heading.\<close>

definition questionHeading :: element where
  "questionHeading = exampleElement 3 ''H2'' [] (ascii ''Katze'')"

definition questionPage :: page where
  "questionPage = blankPage\<lparr>
     allElements := allElements blankPage @ [questionHeading],
     prominentMatches := [Some [], Some [questionHeading]] @ noMatches 13,
     questionWordMatches := [Some [], Some [], Some [], Some [questionHeading]] @ noMatches 5\<rparr>"

text \<open>
  The same page after a right answer was clicked: an element of class \<open>correct\<close> with the
  text \<open>Correct!\<close>, and nothing that \<open>findCorrectAnswer\<close> could take for the answer.
\<close>

definition correctBanner :: element where
  "correctBanner = exampleElement 4 ''DIV'' (ascii ''correct'') (ascii ''Correct!'')"

definition correctNoAnswerPage :: page where
  "correctNoAnswerPage = questionPage\<lparr>
     allElements := allElements questionPage @ [correctBanner],
     correctFeedbackMatches := [Some [correctBanner]] @ noMatches 4 @ [Some [correctBanner]]
                               @ noMatches 3,
     correctOptionMatches := [Some [correctBanner], Some [correctBanner]] @ noMatches 2\<rparr>"

text \<open>The same page when the answer \<open>cat\<close> was typed into an input.\<close>

definition textInput :: "nat \<Rightarrow> jsstring \<Rightarrow> element" where
  "textInput n v = (exampleElement n ''INPUT'' [] [])\<lparr>inputValue := StringValue v\<rparr>"

definition correctTypedPage :: page where
  "correctTypedPage = correctNoAnswerPage\<lparr>
     allElements := allElements correctNoAnswerPage @ [textInput 5 (ascii ''cat'')],
     answerInputMatches := [Some [textInput 5 (ascii ''cat'')], Some [],
                            Some [textInput 5 (ascii ''cat'')]] @ noMatches 4\<rparr>"

text \<open>
  The same page when the answer is the list item \<open><li id="answer1" value="1">cat</li>\<close>:
  the last answer-input selector, \<open>[id*="answer"]\<close>, matches it, and its \<open>value\<close> is the
  number 1.
\<close>

definition answerItem :: element where
  "answerItem = (exampleElement 5 ''LI'' [] (ascii ''cat''))\<lparr>inputValue := NumberValue (Finite 1)\<rparr>"

definition correctItemPage :: page where
  "correctItemPage = correctNoAnswerPage\<lparr>
     allElements := allElements correctNoAnswerPage @ [answerItem],
     answerInputMatches := noMatches 6 @ [Some [answerItem]],
     wordPairMatches := noMatches 5
        @ [Some [\<lparr>itemId = 5, sourceWordMatches = noMatches 6, targetWordMatches = noMatches 6,
                   cells = []\<rparr>]]
        @ noMatches 2\<rparr>"

text \<open>The page after a wrong answer, with the solution revealed.\<close>

definition wrongBanner :: element where
  "wrongBanner = exampleElement 4 ''DIV'' (ascii ''wrong'') (ascii ''Wrong'')"

definition solutionSpan :: element where
  "solutionSpan = exampleElement 5 ''SPAN'' (ascii ''solution'') (ascii ''cat'')"

definition wrongRevealedPage :: page where
  "wrongRevealedPage = questionPage\<lparr>
     allElements := allElements questionPage @ [wrongBanner, solutionSpan],
     incorrectFeedbackMatches := [Some [], Some [wrongBanner]] @ noMatches 4
                                 @ [Some [wrongBanner]] @ noMatches 2,
     revealedAnswerMatches := noMatches 2 @ [Some [solutionSpan]] @ noMatches 2
                              @ [Some [solutionSpan]] @ noMatches 2,
     correctOptionMatches := noMatches 3 @ [Some [solutionSpan]]\<rparr>"

text \<open>
  The page after a wrong answer where the feedback element itself names the solution.
\<close>

definition wrongExplained :: element where
  "wrongExplained =
     exampleElement 4 ''DIV'' (ascii ''wrong'') (ascii ''Wrong. The right answer is: cat'')"

definition wrongExplainedPage :: page where
  "wrongExplainedPage = questionPage\<lparr>
     allElements := allElements questionPage @ [wrongExplained],
     incorrectFeedbackMatches := [Some [], Some [wrongExplained]] @ noMatches 4
                                 @ [Some [wrongExplained]] @ noMatches 2\<rparr>"

text \<open>A selection screen with two answer buttons and a stray input.\<close>

definition optionButton :: "nat \<Rightarrow> jsstring \<Rightarrow> element" where
  "optionButton n txt = exampleElement n ''BUTTON'' (ascii ''answer'') txt"

definition selectionWithInputPage :: page where
  "selectionWithInputPage = questionPage\<lparr>
     allElements := allElements questionPage
        @ [optionButton 4 (ascii ''cat''), optionButton 5 (ascii ''dog''), textInput 6 []],
     answerOptionsMatches :=
        [Some [optionButton 4 (ascii ''cat''), optionButton 5 (ascii ''dog'')], Some [], Some [],
         Some [], Some [optionButton 4 (ascii ''cat''), optionButton 5 (ascii ''dog'')],
         Some [optionButton 4 (ascii ''cat''), optionButton 5 (ascii ''dog'')], Some [], Some []],
     answerInputMatches := [Some [textInput 6 []], Some [], Some [textInput 6 []]]
                           @ noMatches 4\<rparr>"

text \<open>
  A typing screen with one button, which three of the answer-option selectors match, and
  an input.
\<close>

definition repeatedOptionPage :: page where
  "repeatedOptionPage = questionPage\<lparr>
     allElements := allElements questionPage @ [optionButton 4 (ascii ''cat''), textInput 5 []],
     answerOptionsMatches :=
        [Some [optionButton 4 (ascii ''cat'')], Some [], Some [], Some [],
         Some [optionButton 4 (ascii ''cat'')], Some [optionButton 4 (ascii ''cat'')],
         Some [], Some []],
     answerInputMatches := [Some [textInput 5 []], Some [], Some [textInput 5 []]]
                           @ noMatches 4\<rparr>"

text \<open>
  Two answer buttons whose texts have 200 units each, and an input.
\<close>

definition longOptionsPage :: page where
  "longOptionsPage = questionPage\<lparr>
     allElements := allElements questionPage
        @ [optionButton 4 (replicate 200 0x61), optionButton 5 (replicate 200 0x62),
           textInput 6 []],
     answerOptionsMatches :=
        [Some [optionButton 4 (replicate 200 0x61), optionButton 5 (replicate 200 0x62)],
         Some [], Some [], Some [],
         Some [optionButton 4 (replicate 200 0x61), optionButton 5 (replicate 200 0x62)],
         Some [optionButton 4 (replicate 200 0x61), optionButton 5 (replicate 200 0x62)],
         Some [], Some []],
     answerInputMatches := [Some [textInput 6 []], Some [], Some [textInput 6 []]]
                           @ noMatches 4\<rparr>"

text \<open>
  A word in small print followed by two elements alike in everything the score reads.
\<close>

definition smallWord :: element where
  "smallWord = (exampleElement 3 ''SPAN'' [] (ascii ''Maus''))\<lparr>parsedFontSize := Finite 12\<rparr>"

definition tiePage :: page where
  "tiePage = blankPage\<lparr>
     allElements := allElements blankPage
        @ [smallWord, exampleElement 4 ''DIV'' [] (ascii ''Katze''),
           exampleElement 5 ''DIV'' [] (ascii ''Hund'')]\<rparr>"

text \<open>The tracker in \<open>AwaitingResult(q)\<close>.\<close>

definition awaiting :: "jsstring \<Rightarrow> tracker" where
  "awaiting q = \<lparr>lastQuestion = Some q, isWaitingForResult = True, notifications = []\<rparr>"

section \<open>Properties of the word store\<close>

text \<open>Unfolding sets for evaluating the model on concrete strings and stores.\<close>

lemma latinEngine_sel [simp]:
  "toLowerCase latinEngine = latinLowerCase" "multiply latinEngine = exactTimes"
  by (simp_all add: latinEngine_def)

lemmas str_eval = ascii_def isWhiteSpace_def trim_def lower_unit_def latinLowerCase_def
  startsWith_def isDigit_def pureDigits_def startsWithTenDigits_def tenOrMoreDigits_def
  isLetter_def letterCount_def digitCount_def normalizeWord_def uiWords_def
lemmas store_eval = addWord_def addWord_checks_def addWord_insert_def Map_has_def Map_set_def
  emptyStore_def findTranslation_def findPartialMatch_def partialMatches_def dedup_def
  totalWords_def totalTranslations_def

lemma listed_mem: "x \<in> set (listed m k) \<longleftrightarrow> (\<exists>v. map_of m k = Some v \<and> x \<in> set v)"
  by (cases "map_of m k") (simp_all add: listed_def)

lemma map_of_Map_set: "map_of (Map_set m k v) = (map_of m)(k \<mapsto> v)"
  by (simp add: Map_set_def update_conv')

lemma addWord_insert_fst:
  "fst (addWord_insert s t st) \<longleftrightarrow> t \<notin> set (listed (wordDatabase st) s)"
  by (auto simp: addWord_insert_def Let_def Map_has_def map_of_Map_set listed_def
           split: option.splits)

lemma addWord_insert_False:
  "\<not> fst (addWord_insert s t st) \<Longrightarrow> snd (addWord_insert s t st) = st"
  by (auto simp: addWord_insert_def Let_def Map_has_def map_of_Map_set
           split: option.splits if_splits)

lemma addWord_insert_db:
  "fst (addWord_insert s t st) \<Longrightarrow>
   map_of (wordDatabase (snd (addWord_insert s t st)))
     = (map_of (wordDatabase st))(s \<mapsto> listed (wordDatabase st) s @ [t])"
  by (auto simp: addWord_insert_def Let_def Map_has_def map_of_Map_set listed_def
           split: option.splits if_splits)

lemma addWord_insert_rdb:
  "fst (addWord_insert s t st) \<Longrightarrow>
   map_of (reverseDatabase (snd (addWord_insert s t st)))
     = (if s \<in> set (listed (reverseDatabase st) t) then map_of (reverseDatabase st)
        else (map_of (reverseDatabase st))(t \<mapsto> listed (reverseDatabase st) t @ [s]))"
  by (auto simp: addWord_insert_def Let_def Map_has_def map_of_Map_set listed_def
           split: option.splits if_splits)

lemma addWord_False: "\<not> fst (addWord js a b st) \<Longrightarrow> snd (addWord js a b st) = st"
  by (auto simp: addWord_def addWord_insert_False split: option.splits)

lemma addWord_checks_norm:
  "addWord_checks js (JStr a) (JStr b) = Some (s, t) \<Longrightarrow> s = normalizeWord js a \<and> t = normalizeWord js b"
  by (auto simp: addWord_checks_def Let_def split: if_splits)

lemma addWord_checks_str:
  "addWord_checks js x y = Some (s, t) \<Longrightarrow> \<exists>a b. x = JStr a \<and> y = JStr b"
  by (auto simp: addWord_checks_def Let_def split: if_splits json.splits)

lemma listed_upd:
  "map_of m' = (map_of m)(k \<mapsto> v) \<Longrightarrow> listed m' k' = (if k' = k then v else listed m k')"
  by (simp add: listed_def)

lemma listed_same: "map_of m' = map_of m \<Longrightarrow> listed m' k = listed m k"
  by (simp add: listed_def)

lemma addWord_cases:
  obtains (rejected) "\<not> fst (addWord js x y st)" "snd (addWord js x y st) = st"
  | (inserted) a b where "x = JStr a" "y = JStr b"
      "addWord_checks js x y = Some (normalizeWord js a, normalizeWord js b)"
      "addWord js x y st = addWord_insert (normalizeWord js a) (normalizeWord js b) st"
      "fst (addWord_insert (normalizeWord js a) (normalizeWord js b) st)"
proof (cases "fst (addWord js x y st)")
  case False
  then show ?thesis using rejected addWord_False by blast
next
  case True
  then obtain s t where c: "addWord_checks js x y = Some (s, t)"
    by (auto simp: addWord_def split: option.splits)
  then obtain a b where ab: "x = JStr a" "y = JStr b"
    using addWord_checks_str by blast
  with c have st: "s = normalizeWord js a" "t = normalizeWord js b"
    using addWord_checks_norm by blast+
  have "addWord js x y st = addWord_insert (normalizeWord js a) (normalizeWord js b) st"
    using c st by (simp add: addWord_def)
  with True show ?thesis using inserted ab c st by simp
qed

subsection \<open>Frame of \<open>addWord\<close>\<close>

text \<open>
  Claim C10. Whatever \<open>addWord(a, b)\<close> returns, the primary mapping is unchanged at every
  key other than \<open>normalizeWord a\<close>, and the reverse index is unchanged at every key other
  than \<open>normalizeWord b\<close>.
\<close>

theorem addWord_frame:
  "(k \<noteq> normalizeWord js a \<longrightarrow>
      map_of (wordDatabase (snd (addWord js (JStr a) (JStr b) st))) k = map_of (wordDatabase st) k)
   \<and> (t \<noteq> normalizeWord js b \<longrightarrow>
      map_of (reverseDatabase (snd (addWord js (JStr a) (JStr b) st))) t
        = map_of (reverseDatabase st) t)"
proof (cases js "JStr a" "JStr b" st rule: addWord_cases)
  case rejected
  then show ?thesis by simp
next
  case (inserted a' b')
  then have [simp]: "a' = a" "b' = b" by simp_all
  from inserted show ?thesis
    by (simp add: addWord_insert_db addWord_insert_rdb)
qed

theorem addWord_frame_witness:
  "ascii ''hund'' \<noteq> normalizeWord latinEngine (ascii ''Katze'')
   \<and> ascii ''dog'' \<noteq> normalizeWord latinEngine (ascii ''cat'')
   \<and> fst (addWord latinEngine (JStr (ascii ''Katze'')) (JStr (ascii ''cat''))
          (snd (addWord latinEngine (JStr (ascii ''Hund'')) (JStr (ascii ''dog'')) emptyStore)))
   \<and> map_of (wordDatabase (snd (addWord latinEngine (JStr (ascii ''Katze'')) (JStr (ascii ''cat''))
          (snd (addWord latinEngine (JStr (ascii ''Hund'')) (JStr (ascii ''dog'')) emptyStore)))))
        (ascii ''hund'') = Some [ascii ''dog'']
   \<and> map_of (reverseDatabase (snd (addWord latinEngine (JStr (ascii ''Katze'')) (JStr (ascii ''cat''))
          (snd (addWord latinEngine (JStr (ascii ''Hund'')) (JStr (ascii ''dog'')) emptyStore)))))
        (ascii ''dog'') = Some [ascii ''hund'']"
proof -
  let ?st0 = "snd (addWord latinEngine (JStr (ascii ''Hund'')) (JStr (ascii ''dog'')) emptyStore)"
  have h1: "ascii ''hund'' \<noteq> normalizeWord latinEngine (ascii ''Katze'')"
    by (simp add: str_eval)
  have h2: "ascii ''dog'' \<noteq> normalizeWord latinEngine (ascii ''cat'')"
    by (simp add: str_eval)
  have b1: "map_of (wordDatabase ?st0) (ascii ''hund'') = Some [ascii ''dog'']"
    by (simp add: store_eval str_eval)
  have b2: "map_of (reverseDatabase ?st0) (ascii ''dog'') = Some [ascii ''hund'']"
    by (simp add: store_eval str_eval)
  have r: "fst (addWord latinEngine (JStr (ascii ''Katze'')) (JStr (ascii ''cat'')) ?st0)"
    by (simp add: store_eval str_eval)
  from h1 h2 b1 b2 r
    addWord_frame[of "ascii ''hund''" latinEngine "ascii ''Katze''" "ascii ''cat''" ?st0 "ascii ''dog''"]
  show ?thesis by simp
qed

subsection \<open>Adding the same pair twice\<close>

lemma addWord_second_call:
  assumes "fst (addWord js x y st)"
  shows "\<not> fst (addWord js x y (snd (addWord js x y st)))"
proof (cases js x y st rule: addWord_cases)
  case rejected
  with assms show ?thesis by simp
next
  case (inserted a b)
  let ?s = "normalizeWord js a" and ?t = "normalizeWord js b"
  let ?st' = "snd (addWord_insert ?s ?t st)"
  have "?t \<in> set (listed (wordDatabase ?st') ?s)"
    using listed_upd[OF addWord_insert_db[OF inserted(5)], of ?s] by simp
  then have "\<not> fst (addWord_insert ?s ?t ?st')"
    by (simp add: addWord_insert_fst)
  then show ?thesis
    using inserted by (simp add: addWord_def)
qed

lemma addWord_empty_accepts:
  assumes "addWord_checks js x y \<noteq> None"
  shows "fst (addWord js x y emptyStore)"
proof -
  from assms obtain s t where "addWord_checks js x y = Some (s, t)" by auto
  then show ?thesis
    by (simp add: addWord_def addWord_insert_fst emptyStore_def listed_def)
qed

text \<open>
  Claim C4. For a pair that passes the checks of \<open>addWord\<close>, the first call on the empty store
  returns true, the second call right after it returns false, and the second call changes
  neither the number of keys nor the number of stored translations.
\<close>

theorem addWord_idempotent:
  assumes "addWord_checks js a b \<noteq> None"
  shows "fst (addWord js a b emptyStore)
     \<and> \<not> fst (addWord js a b (snd (addWord js a b emptyStore)))
     \<and> totalWords (snd (addWord js a b (snd (addWord js a b emptyStore))))
         = totalWords (snd (addWord js a b emptyStore))
     \<and> totalTranslations (snd (addWord js a b (snd (addWord js a b emptyStore))))
         = totalTranslations (snd (addWord js a b emptyStore))"
proof -
  have first: "fst (addWord js a b emptyStore)"
    using assms by (rule addWord_empty_accepts)
  then have second: "\<not> fst (addWord js a b (snd (addWord js a b emptyStore)))"
    by (rule addWord_second_call)
  then have "snd (addWord js a b (snd (addWord js a b emptyStore))) = snd (addWord js a b emptyStore)"
    by (rule addWord_False)
  with first second show ?thesis by simp
qed

theorem addWord_idempotent_witness:
  "addWord_checks latinEngine (JStr (ascii ''Katze'')) (JStr (ascii ''cat'')) \<noteq> None
   \<and> fst (addWord latinEngine (JStr (ascii ''Katze'')) (JStr (ascii ''cat'')) emptyStore)
   \<and> \<not> fst (addWord latinEngine (JStr (ascii ''Katze'')) (JStr (ascii ''cat''))
              (snd (addWord latinEngine (JStr (ascii ''Katze'')) (JStr (ascii ''cat'')) emptyStore)))"
proof -
  have h: "addWord_checks latinEngine (JStr (ascii ''Katze'')) (JStr (ascii ''cat'')) \<noteq> None"
    by (simp add: addWord_checks_def str_eval)
  from addWord_idempotent[OF h] h show ?thesis by blast
qed

subsection \<open>Lookup after a successful add\<close>

text \<open>
  Claim C5, as the code has it. After \<open>addWord(a, b)\<close> returned true, \<open>findTranslation(a)\<close>
  returns a list that holds \<open>normalizeWord b\<close>. \<open>findTranslation(b)\<close> returns a list that holds
  \<open>normalizeWord a\<close> when \<open>normalizeWord b\<close> was not a key of the primary mapping, as on an
  empty store; the primary mapping is read first, so when \<open>normalizeWord b\<close> was a key of the
  primary mapping, \<open>findTranslation(b)\<close> returns the list which that key held before the call.
\<close>

theorem lookup_after_add:
  assumes "fst (addWord js (JStr a) (JStr b) st)"
  shows "(\<exists>translations. findTranslation js a (snd (addWord js (JStr a) (JStr b) st)) = Some translations
            \<and> normalizeWord js b \<in> set translations)
       \<and> (map_of (wordDatabase st) (normalizeWord js b) = None \<longrightarrow>
           (\<exists>sources. findTranslation js b (snd (addWord js (JStr a) (JStr b) st)) = Some sources
              \<and> normalizeWord js a \<in> set sources))
       \<and> (\<forall>targets. map_of (wordDatabase st) (normalizeWord js b) = Some targets \<longrightarrow>
           findTranslation js b (snd (addWord js (JStr a) (JStr b) st)) = Some targets)"
proof (cases js "JStr a" "JStr b" st rule: addWord_cases)
  case rejected
  with assms show ?thesis by simp
next
  case (inserted a' b')
  then have [simp]: "a' = a" "b' = b" by simp_all
  let ?s = "normalizeWord js a" and ?t = "normalizeWord js b"
  let ?st' = "snd (addWord_insert ?s ?t st)"
  have ins: "fst (addWord_insert ?s ?t st)" using inserted(5) by simp
  have neq: "?s \<noteq> ?t"
    using inserted(3) by (auto simp: addWord_checks_def Let_def split: if_splits)
  have db: "map_of (wordDatabase ?st') = (map_of (wordDatabase st))(?s \<mapsto> listed (wordDatabase st) ?s @ [?t])"
    using ins by (rule addWord_insert_db)
  have rdb: "\<exists>sources. map_of (reverseDatabase ?st') ?t = Some sources \<and> ?s \<in> set sources"
  proof (cases "?s \<in> set (listed (reverseDatabase st) ?t)")
    case True
    then have "map_of (reverseDatabase ?st') = map_of (reverseDatabase st)"
      using addWord_insert_rdb[OF ins] by simp
    moreover from True obtain ss where "map_of (reverseDatabase st) ?t = Some ss" "?s \<in> set ss"
      by (auto simp: listed_mem)
    ultimately show ?thesis by simp
  next
    case False
    then have "map_of (reverseDatabase ?st')
        = (map_of (reverseDatabase st))(?t \<mapsto> listed (reverseDatabase st) ?t @ [?s])"
      using addWord_insert_rdb[OF ins] by simp
    then show ?thesis by simp
  qed
  have 1: "\<exists>translations. findTranslation js a ?st' = Some translations \<and> ?t \<in> set translations"
    using db by (simp add: findTranslation_def)
  have 2: "\<exists>sources. findTranslation js b ?st' = Some sources \<and> ?s \<in> set sources"
    if "map_of (wordDatabase st) ?t = None"
    using that db rdb neq by (auto simp: findTranslation_def)
  have 3: "findTranslation js b ?st' = Some targets"
    if "map_of (wordDatabase st) ?t = Some targets" for targets
    using that db neq by (simp add: findTranslation_def)
  from 1 2 3 inserted(4) show ?thesis by simp
qed

theorem lookup_after_add_witness:
  "fst (addWord latinEngine (JStr (ascii ''Katze'')) (JStr (ascii ''cat'')) emptyStore)
   \<and> map_of (wordDatabase emptyStore) (normalizeWord latinEngine (ascii ''cat'')) = None
   \<and> findTranslation latinEngine (ascii ''Katze'')
         (snd (addWord latinEngine (JStr (ascii ''Katze'')) (JStr (ascii ''cat'')) emptyStore))
       = Some [ascii ''cat'']
   \<and> findTranslation latinEngine (ascii ''cat'')
         (snd (addWord latinEngine (JStr (ascii ''Katze'')) (JStr (ascii ''cat'')) emptyStore))
       = Some [ascii ''katze'']
   \<and> fst (addWord latinEngine (JStr (ascii ''Katze'')) (JStr (ascii ''cat''))
         (snd (addWord latinEngine (JStr (ascii ''cat'')) (JStr (ascii ''chat'')) emptyStore)))
   \<and> map_of (wordDatabase (snd (addWord latinEngine (JStr (ascii ''cat''))
         (JStr (ascii ''chat'')) emptyStore))) (normalizeWord latinEngine (ascii ''cat''))
       = Some [ascii ''chat'']
   \<and> findTranslation latinEngine (ascii ''cat'')
         (snd (addWord latinEngine (JStr (ascii ''Katze'')) (JStr (ascii ''cat''))
            (snd (addWord latinEngine (JStr (ascii ''cat'')) (JStr (ascii ''chat'')) emptyStore))))
       = Some [ascii ''chat'']"
proof -
  let ?st1 = "snd (addWord latinEngine (JStr (ascii ''cat'')) (JStr (ascii ''chat'')) emptyStore)"
  have h: "fst (addWord latinEngine (JStr (ascii ''Katze'')) (JStr (ascii ''cat'')) emptyStore)"
    by (simp add: store_eval str_eval)
  have e: "map_of (wordDatabase emptyStore) (normalizeWord latinEngine (ascii ''cat'')) = None"
    by (simp add: emptyStore_def)
  have a: "findTranslation latinEngine (ascii ''Katze'')
         (snd (addWord latinEngine (JStr (ascii ''Katze'')) (JStr (ascii ''cat'')) emptyStore))
       = Some [ascii ''cat'']"
    by (simp add: store_eval str_eval)
  from lookup_after_add[OF h] e
  obtain sources where s: "findTranslation latinEngine (ascii ''cat'')
         (snd (addWord latinEngine (JStr (ascii ''Katze'')) (JStr (ascii ''cat'')) emptyStore))
       = Some sources" by blast
  have b: "findTranslation latinEngine (ascii ''cat'')
         (snd (addWord latinEngine (JStr (ascii ''Katze'')) (JStr (ascii ''cat'')) emptyStore))
       = Some [ascii ''katze'']"
    by (simp add: store_eval str_eval)
  have h': "fst (addWord latinEngine (JStr (ascii ''Katze'')) (JStr (ascii ''cat'')) ?st1)"
    by (simp add: store_eval str_eval)
  have k: "map_of (wordDatabase ?st1) (normalizeWord latinEngine (ascii ''cat''))
       = Some [ascii ''chat'']"
    by (simp add: store_eval str_eval)
  from lookup_after_add[OF h'] k
  have c: "findTranslation latinEngine (ascii ''cat'')
         (snd (addWord latinEngine (JStr (ascii ''Katze'')) (JStr (ascii ''cat'')) ?st1))
       = Some [ascii ''chat'']" by blast
  from h e a b h' k c show ?thesis by blast
qed

text \<open>
  With \<open>dog \<rightarrow> chien\<close> stored, \<open>addWord("Hund", "dog")\<close> returns true and
  \<open>findTranslation("dog")\<close> is still \<open>["chien"]\<close>.
\<close>

theorem lookup_after_add_counterexample:
  "fst (addWord latinEngine (JStr (ascii ''Hund'')) (JStr (ascii ''dog''))
          (snd (addWord latinEngine (JStr (ascii ''dog'')) (JStr (ascii ''chien'')) emptyStore)))
   \<and> findTranslation latinEngine (ascii ''dog'')
        (snd (addWord latinEngine (JStr (ascii ''Hund'')) (JStr (ascii ''dog''))
           (snd (addWord latinEngine (JStr (ascii ''dog'')) (JStr (ascii ''chien'')) emptyStore))))
      = Some [ascii ''chien'']
   \<and> normalizeWord latinEngine (ascii ''Hund'') = ascii ''hund''
   \<and> ascii ''hund'' \<notin> set [ascii ''chien'']"
  by (simp add: store_eval str_eval)

subsection \<open>The reverse index\<close>

lemma inverted_addWord:
  assumes "inverted st"
  shows "inverted (snd (addWord js x y st))"
proof (cases js x y st rule: addWord_cases)
  case rejected
  with assms show ?thesis by simp
next
  case (inserted a b)
  let ?s = "normalizeWord js a" and ?t = "normalizeWord js b"
  let ?st' = "snd (addWord_insert ?s ?t st)"
  have new: "?t \<notin> set (listed (wordDatabase st) ?s)"
    using inserted(5) by (simp add: addWord_insert_fst)
  with assms have "?s \<notin> set (listed (reverseDatabase st) ?t)"
    by (simp add: inverted_def)
  then have rdb: "map_of (reverseDatabase ?st')
      = (map_of (reverseDatabase st))(?t \<mapsto> listed (reverseDatabase st) ?t @ [?s])"
    using addWord_insert_rdb[OF inserted(5)] by simp
  have db: "map_of (wordDatabase ?st')
      = (map_of (wordDatabase st))(?s \<mapsto> listed (wordDatabase st) ?s @ [?t])"
    using inserted(5) by (rule addWord_insert_db)
  have "inverted ?st'"
    unfolding inverted_def listed_upd[OF db] listed_upd[OF rdb]
    using assms by (auto simp: inverted_def)
  then show ?thesis using inserted(4) by simp
qed

lemma addWords_loop_preserves:
  assumes step: "\<And>x y st. P st \<Longrightarrow> P (snd (addWord js x y st))"
  shows "P st \<Longrightarrow> P (snd (addWords_loop js ps n st))"
proof (induction ps arbitrary: n st)
  case Nil
  then show ?case by simp
next
  case (Cons p ps)
  obtain x y where p: "p = (x, y)" by (cases p)
  obtain r st' where r: "addWord js x y st = (r, st')" by (cases "addWord js x y st")
  with step[OF Cons.prems, of x y] have "P st'" by simp
  then show ?case using Cons.IH p r by (cases r) simp_all
qed

lemma import_targets_as_addWords:
  "import_targets js source ts n st = addWords_loop js (map (\<lambda>target. (JStr source, target)) ts) n st"
  by (induction ts arbitrary: n st) (auto split: prod.splits bool.splits)

lemma addWords_loop_append:
  "addWords_loop js (ps @ qs) n st
     = (case addWords_loop js ps n st of (n', st') \<Rightarrow> addWords_loop js qs n' st')"
  by (induction ps arbitrary: n st) (auto split: prod.splits bool.splits)

lemma import_entries_as_addWords:
  "import_entries js es n st = addWords_loop js (entry_pairs es) n st"
proof (induction es arbitrary: n st)
  case Nil
  then show ?case by (simp add: entry_pairs_def)
next
  case (Cons e es)
  obtain source targets where e: "e = (source, targets)" by (cases e)
  have "entry_pairs (e # es)
      = map (\<lambda>target. (JStr source, target)) (targetArray targets) @ entry_pairs es"
    by (simp add: entry_pairs_def e)
  then show ?case
    using Cons.IH by (simp add: e addWords_loop_append import_targets_as_addWords split: prod.splits)
qed

lemma importDatabase_cases:
  "importDatabase js doc st = (0, st)
   \<or> (\<exists>data es. doc = Some data \<and> Object_entries data = Inr es
         \<and> importDatabase js doc st = addWords_loop js (entry_pairs es) 0 st)"
  by (auto simp: importDatabase_def importDatabase_try_def import_entries_as_addWords
           split: option.splits sum.splits)

lemma importDatabase_preserves:
  assumes step: "\<And>x y st. P st \<Longrightarrow> P (snd (addWord js x y st))" and "P st"
  shows "P (snd (importDatabase js doc st))"
  using importDatabase_cases[of js doc st] addWords_loop_preserves[of P js, OF step \<open>P st\<close>] assms(2)
  by auto

lemma listed_Map_set:
  "listed (Map_set m k v) t = (if t = k then v else listed m t)"
  by (simp add: listed_def map_of_Map_set)

lemma rebuild_targets_listed:
  "set (listed (rebuild_targets s ts rdb) t) = set (listed rdb t) \<union> (if t \<in> set ts then {s} else {})"
proof (induction ts arbitrary: rdb)
  case Nil
  then show ?case by simp
next
  case (Cons u ts)
  let ?rdb1 = "if \<not> Map_has rdb u then Map_set rdb u [] else rdb"
  have l1: "listed ?rdb1 t = listed rdb t" for t
    by (auto simp: listed_def Map_has_def map_of_Map_set)
  obtain sources where src: "map_of ?rdb1 u = Some sources"
    by (cases "map_of rdb u") (auto simp: Map_has_def map_of_Map_set)
  then have sources: "sources = listed rdb u"
    using l1[of u] by (simp add: listed_def)
  have step: "rebuild_targets s (u # ts) rdb
      = rebuild_targets s ts (Map_set ?rdb1 u (listed rdb u @ [s]))"
    using src sources by (simp add: Let_def)
  have "set (listed (Map_set ?rdb1 u (listed rdb u @ [s])) t)
      = set (listed rdb t) \<union> (if t = u then {s} else {})"
    unfolding listed_Map_set l1 by auto
  then show ?case
    unfolding step Cons.IH by auto
qed

lemma rebuild_entries_listed:
  "set (listed (rebuild_entries m rdb) t)
     = set (listed rdb t) \<union> {s. \<exists>ts. (s, ts) \<in> set m \<and> t \<in> set ts}"
proof (induction m arbitrary: rdb)
  case Nil
  then show ?case by simp
next
  case (Cons e m)
  obtain s ts where e: "e = (s, ts)" by (cases e)
  show ?case
    unfolding e rebuild_entries.simps Cons.IH rebuild_targets_listed by auto
qed

lemma inverted_rebuild:
  assumes "distinct (map fst (wordDatabase st))"
  shows "inverted (rebuildReverseDatabase st)"
proof -
  have "t \<in> set (listed (wordDatabase st) s) \<longleftrightarrow> (\<exists>ts. (s, ts) \<in> set (wordDatabase st) \<and> t \<in> set ts)"
    for s t
    using assms by (auto simp: listed_mem)
  moreover have "listed [] t = []" for t :: jsstring
    by (simp add: listed_def)
  ultimately show ?thesis
    unfolding inverted_def rebuildReverseDatabase_def
    by (simp add: rebuild_entries_listed)
qed

lemma addWord_insert_distinct:
  "distinct (map fst (wordDatabase st))
   \<Longrightarrow> distinct (map fst (wordDatabase (snd (addWord_insert s t st))))"
  by (auto simp: addWord_insert_def Let_def Map_set_def distinct_update split: option.splits)

lemma addWord_distinct:
  "distinct (map fst (wordDatabase st)) \<Longrightarrow> distinct (map fst (wordDatabase (snd (addWord js x y st))))"
  by (cases "addWord_checks js x y") (auto simp: addWord_def addWord_insert_distinct)

lemma apply_op_distinct:
  assumes "distinct (map fst (wordDatabase st))"
  shows "distinct (map fst (wordDatabase (apply_op js st op)))"
proof (cases op)
  case (Add x y)
  with assms show ?thesis by (simp add: addWord_distinct)
next
  case (AddMany ps)
  with assms show ?thesis
    using addWords_loop_preserves[of "\<lambda>st. distinct (map fst (wordDatabase st))" js, OF addWord_distinct]
    by (simp add: addWords_def)
next
  case Clear
  then show ?thesis by (simp add: clearDatabase_def)
next
  case (ImportAll doc)
  with assms show ?thesis
    using importDatabase_preserves[of "\<lambda>st. distinct (map fst (wordDatabase st))" js, OF addWord_distinct]
    by simp
next
  case Rebuild
  with assms show ?thesis by (simp add: rebuildReverseDatabase_def)
qed

lemma apply_op_inverted:
  assumes "inverted st" "distinct (map fst (wordDatabase st))"
  shows "inverted (apply_op js st op)"
proof (cases op)
  case (Add x y)
  with assms show ?thesis by (simp add: inverted_addWord)
next
  case (AddMany ps)
  with assms show ?thesis
    using addWords_loop_preserves[of inverted js, OF inverted_addWord]
    by (simp add: addWords_def)
next
  case Clear
  then show ?thesis by (simp add: clearDatabase_def inverted_def listed_def)
next
  case (ImportAll doc)
  with assms show ?thesis
    using importDatabase_preserves[of inverted js, OF inverted_addWord] by simp
next
  case Rebuild
  with assms show ?thesis by (simp add: inverted_rebuild)
qed

lemma run_ops_inverted:
  "inverted st \<Longrightarrow> distinct (map fst (wordDatabase st)) \<Longrightarrow> inverted (run_ops js ops st)"
  unfolding run_ops_def
  by (induction ops arbitrary: st) (simp_all add: apply_op_inverted apply_op_distinct)

text \<open>
  Claim C3. After any sequence of \<open>addWord\<close>, \<open>addWords\<close>, \<open>clearDatabase\<close> and
  \<open>importDatabase\<close> calls on the empty store (\<open>rebuildReverseDatabase\<close> may be called in
  between), the reverse index lists the source \<open>s\<close> under the target \<open>t\<close> exactly when the
  primary mapping lists \<open>t\<close> under \<open>s\<close>.
\<close>

theorem reverse_index_is_inversion:
  "(\<exists>sources. map_of (reverseDatabase (run_ops js ops emptyStore)) t = Some sources \<and> s \<in> set sources)
   \<longleftrightarrow> (\<exists>targets. map_of (wordDatabase (run_ops js ops emptyStore)) s = Some targets \<and> t \<in> set targets)"
proof -
  have "inverted emptyStore" by (simp add: inverted_def emptyStore_def listed_def)
  moreover have "distinct (map fst (wordDatabase emptyStore))" by (simp add: emptyStore_def)
  ultimately have "inverted (run_ops js ops emptyStore)" by (rule run_ops_inverted)
  then show ?thesis by (simp add: inverted_def listed_mem)
qed

subsection \<open>Import: errors stay inside\<close>

lemma addWord_rejects: "addWord_checks js x y = None \<Longrightarrow> addWord js x y st = (False, st)"
  by (simp add: addWord_def)

lemma addWords_loop_filter:
  "addWords_loop js ps n st = addWords_loop js (filter (wellFormed js) ps) n st"
proof (induction ps arbitrary: n st)
  case Nil
  then show ?case by simp
next
  case (Cons p ps)
  obtain x y where p: "p = (x, y)" by (cases p)
  show ?case
  proof (cases "wellFormed js p")
    case True
    then show ?thesis using Cons.IH by (simp add: p split: prod.splits bool.splits)
  next
    case False
    then have "addWord_checks js x y = None"
      by (cases "addWord_checks js x y") (simp_all add: wellFormed_def p)
    then have "addWord js x y st = (False, st)"
      by (rule addWord_rejects)
    with False show ?thesis using Cons.IH by (simp add: p)
  qed
qed

lemma addWord_keeps:
  assumes "t \<in> set (listed (wordDatabase st) s)"
  shows "t \<in> set (listed (wordDatabase (snd (addWord js x y st))) s)"
proof (cases js x y st rule: addWord_cases)
  case rejected
  with assms show ?thesis by simp
next
  case (inserted a b)
  from assms show ?thesis
    unfolding inserted(4) listed_upd[OF addWord_insert_db[OF inserted(5)]] by auto
qed

lemma addWord_stores:
  assumes "addWord_checks js x y = Some (s, t)"
  shows "t \<in> set (listed (wordDatabase (snd (addWord js x y st))) s)"
proof (cases js x y st rule: addWord_cases)
  case rejected
  with assms have "\<not> fst (addWord_insert s t st)" by (simp add: addWord_def)
  then have "t \<in> set (listed (wordDatabase st) s)" by (simp add: addWord_insert_fst)
  with rejected show ?thesis by simp
next
  case (inserted a b)
  with assms have st: "s = normalizeWord js a" "t = normalizeWord js b" by simp_all
  show ?thesis
    unfolding inserted(4) st listed_upd[OF addWord_insert_db[OF inserted(5)]] by simp
qed

lemma addWords_loop_keeps:
  "t \<in> set (listed (wordDatabase st) s)
   \<Longrightarrow> t \<in> set (listed (wordDatabase (snd (addWords_loop js ps n st))) s)"
  by (rule addWords_loop_preserves[where P = "\<lambda>st. t \<in> set (listed (wordDatabase st) s)"])
     (simp_all add: addWord_keeps)

lemma addWords_loop_stores:
  assumes "(x, y) \<in> set ps" "addWord_checks js x y = Some (s, t)"
  shows "t \<in> set (listed (wordDatabase (snd (addWords_loop js ps n st))) s)"
  using assms
proof (induction ps arbitrary: n st)
  case Nil
  then show ?case by simp
next
  case (Cons p ps)
  obtain x' y' where p: "p = (x', y')" by (cases p)
  obtain r st' where r: "addWord js x' y' st = (r, st')" by (cases "addWord js x' y' st")
  have step: "snd (addWords_loop js (p # ps) n st) = snd (addWords_loop js ps (if r then n + 1 else n) st')"
    using r by (cases r) (simp_all add: p)
  show ?case
  proof (cases "(x, y) = p")
    case True
    then have "t \<in> set (listed (wordDatabase st') s)"
      using addWord_stores[OF Cons.prems(2), of st] r p by simp
    then show ?thesis unfolding step by (rule addWords_loop_keeps)
  next
    case False
    with Cons.prems have "(x, y) \<in> set ps" by simp
    then show ?thesis unfolding step using Cons.IH Cons.prems(2) by blast
  qed
qed

lemma foldl_lengths:
  "foldl (\<lambda>sum arr. sum + length arr) a xs = a + sum_list (map length xs)"
  by (induction xs arbitrary: a) simp_all

lemma totalTranslations_sum:
  "totalTranslations st = sum_list (map (length \<circ> snd) (wordDatabase st))"
  by (simp add: totalTranslations_def foldl_lengths)

lemma sum_lengths_update:
  "sum_list (map (length \<circ> snd) (AList.update k v m)) + length (listed m k)
     = sum_list (map (length \<circ> snd) m) + length v"
  by (induction m) (auto simp: listed_def)

lemma totalTranslations_insert:
  "totalTranslations (snd (addWord_insert s t st))
     = totalTranslations st + (if fst (addWord_insert s t st) then 1 else 0)"
proof (cases "fst (addWord_insert s t st)")
  case False
  then show ?thesis by (simp add: addWord_insert_False)
next
  case True
  show ?thesis
  proof (cases "map_of (wordDatabase st) s")
    case None
    have "sum_list (map (length \<circ> snd) (AList.update s [t] (AList.update s [] (wordDatabase st))))
            + length (listed (AList.update s [] (wordDatabase st)) s)
          = sum_list (map (length \<circ> snd) (AList.update s [] (wordDatabase st))) + length [t]"
      by (rule sum_lengths_update)
    moreover have "sum_list (map (length \<circ> snd) (AList.update s [] (wordDatabase st)))
            + length (listed (wordDatabase st) s)
          = sum_list (map (length \<circ> snd) (wordDatabase st)) + length ([] :: jsstring list)"
      by (rule sum_lengths_update)
    ultimately show ?thesis using None True
      by (simp add: addWord_insert_def Let_def Map_has_def Map_set_def update_conv'
            listed_def totalTranslations_sum)
  next
    case (Some ts)
    have "sum_list (map (length \<circ> snd) (AList.update s (ts @ [t]) (wordDatabase st)))
            + length (listed (wordDatabase st) s)
          = sum_list (map (length \<circ> snd) (wordDatabase st)) + length (ts @ [t])"
      by (rule sum_lengths_update)
    then show ?thesis using Some True
      by (auto simp: addWord_insert_def Let_def Map_has_def Map_set_def
            listed_def totalTranslations_sum split: if_splits)
  qed
qed

lemma totalTranslations_addWord:
  "totalTranslations (snd (addWord js x y st))
     = totalTranslations st + (if fst (addWord js x y st) then 1 else 0)"
  by (cases "addWord_checks js x y") (auto simp: addWord_def totalTranslations_insert)

lemma addWords_loop_count:
  "fst (addWords_loop js ps n st) + totalTranslations st
     = n + totalTranslations (snd (addWords_loop js ps n st))"
proof (induction ps arbitrary: n st)
  case Nil
  then show ?case by simp
next
  case (Cons p ps)
  obtain x y where p: "p = (x, y)" by (cases p)
  obtain r st' where r: "addWord js x y st = (r, st')" by (cases "addWord js x y st")
  have "totalTranslations st' = totalTranslations st + (if r then 1 else 0)"
    using totalTranslations_addWord[of js x y st] r by simp
  then show ?case
    using Cons.IH[of "n + 1" st'] Cons.IH[of n st'] r by (cases r) (simp_all add: p)
qed

text \<open>
  Claim C9. A text that \<open>JSON.parse\<close> refuses yields 0 and leaves the store alone, and so does
  the \<open>TypeError\<close> of \<open>Object.entries(null)\<close>: no exception leaves \<open>importDatabase\<close>. On a
  parsed object the import is the run of \<open>addWord\<close> over the well-formed pairs alone (a
  malformed entry changes neither the store nor the count, and the entries after it are
  still processed), every well-formed pair is in the store afterwards, and the count
  returned is the number of translations the store gained.
\<close>

theorem importDatabase_error_containment:
  "importDatabase js None st = (0, st)
   \<and> importDatabase js (Some JNull) st = (0, st)
   \<and> importDatabase js (Some (JObj es)) st = addWords js (filter (wellFormed js) (entry_pairs es)) st
   \<and> (\<forall>p \<in> set (entry_pairs es). \<forall>s t. addWord_checks js (fst p) (snd p) = Some (s, t) \<longrightarrow>
         t \<in> set (listed (wordDatabase (snd (importDatabase js (Some (JObj es)) st))) s))
   \<and> fst (importDatabase js (Some (JObj es)) st) + totalTranslations st
       = totalTranslations (snd (importDatabase js (Some (JObj es)) st))"
proof -
  have imp: "importDatabase js (Some (JObj es)) st = addWords_loop js (entry_pairs es) 0 st"
    by (simp add: importDatabase_def importDatabase_try_def import_entries_as_addWords)
  have 1: "importDatabase js None st = (0, st)"
    by (simp add: importDatabase_def importDatabase_try_def)
  have 2: "importDatabase js (Some JNull) st = (0, st)"
    by (simp add: importDatabase_def importDatabase_try_def)
  have 3: "importDatabase js (Some (JObj es)) st = addWords js (filter (wellFormed js) (entry_pairs es)) st"
    unfolding imp addWords_def by (rule addWords_loop_filter)
  have 4: "t \<in> set (listed (wordDatabase (snd (importDatabase js (Some (JObj es)) st))) s)"
    if "p \<in> set (entry_pairs es)" "addWord_checks js (fst p) (snd p) = Some (s, t)" for p s t
    unfolding imp using that addWords_loop_stores[of "fst p" "snd p" _ js] by simp
  have 5: "fst (importDatabase js (Some (JObj es)) st) + totalTranslations st
       = totalTranslations (snd (importDatabase js (Some (JObj es)) st))"
    unfolding imp using addWords_loop_count[of js "entry_pairs es" 0 st] by simp
  from 1 2 3 4 5 show ?thesis by blast
qed

theorem importDatabase_error_containment_witness:
  "(JStr (ascii ''Katze''), JStr (ascii ''cat''))
     \<in> set (entry_pairs [(ascii ''Katze'', JArr [JNum 5, JStr (ascii ''cat''), JNull]),
                           (ascii ''123'', JStr (ascii ''abc'')),
                           (ascii ''Hund'', JStr (ascii ''dog''))])
   \<and> addWord_checks latinEngine (JStr (ascii ''Katze'')) (JStr (ascii ''cat'')) = Some (ascii ''katze'', ascii ''cat'')
   \<and> ascii ''cat'' \<in> set (listed (wordDatabase (snd (importDatabase latinEngine
         (Some (JObj [(ascii ''Katze'', JArr [JNum 5, JStr (ascii ''cat''), JNull]),
                      (ascii ''123'', JStr (ascii ''abc'')),
                      (ascii ''Hund'', JStr (ascii ''dog''))])) emptyStore))) (ascii ''katze''))
   \<and> fst (importDatabase latinEngine
         (Some (JObj [(ascii ''Katze'', JArr [JNum 5, JStr (ascii ''cat''), JNull]),
                      (ascii ''123'', JStr (ascii ''abc'')),
                      (ascii ''Hund'', JStr (ascii ''dog''))])) emptyStore) = 2"
proof -
  let ?es = "[(ascii ''Katze'', JArr [JNum 5, JStr (ascii ''cat''), JNull]),
              (ascii ''123'', JStr (ascii ''abc'')),
              (ascii ''Hund'', JStr (ascii ''dog''))]"
  have m: "(JStr (ascii ''Katze''), JStr (ascii ''cat'')) \<in> set (entry_pairs ?es)"
    by (simp add: entry_pairs_def)
  have c: "addWord_checks latinEngine (JStr (ascii ''Katze'')) (JStr (ascii ''cat''))
      = Some (ascii ''katze'', ascii ''cat'')"
    by (simp add: addWord_checks_def str_eval)
  have n: "fst (importDatabase latinEngine (Some (JObj ?es)) emptyStore) = 2"
    by (simp add: importDatabase_def importDatabase_try_def store_eval str_eval)
  from importDatabase_error_containment[of latinEngine emptyStore ?es] m c
  have "ascii ''cat'' \<in> set (listed (wordDatabase (snd (importDatabase latinEngine (Some (JObj ?es)) emptyStore)))
      (ascii ''katze''))"
    by fastforce
  with m c n show ?thesis by blast
qed

subsection \<open>Export and import round-trip\<close>

lemma checks_stable:
  assumes idem: "\<And>x. normalizeWord js (normalizeWord js x) = normalizeWord js x"
    and chk: "addWord_checks js x y = Some (s, t)"
  shows "storable js s t"
proof -
  from chk obtain a b where xy: "x = JStr a" "y = JStr b"
    using addWord_checks_str by blast
  with chk have st: "s = normalizeWord js a" "t = normalizeWord js b"
    using addWord_checks_norm by blast+
  have n: "normalizeWord js s = s" "normalizeWord js t = t"
    by (simp_all add: st idem)
  from chk have c:
    "s \<noteq> []" "t \<noteq> []" "s \<noteq> t" "\<not> pureDigits s" "\<not> pureDigits t"
    "\<not> startsWithTenDigits s" "\<not> startsWithTenDigits t"
    "\<not> letterCount s < 2" "\<not> letterCount t < 2"
    "\<not> list_ex (\<lambda>w. str_includes (toLowerCase js s) w \<or> str_includes (toLowerCase js t) w) uiWords"
    unfolding xy st addWord_checks_def by (simp_all add: Let_def split: if_splits)
  show ?thesis
    unfolding storable_def addWord_checks_def using c by (simp add: n Let_def)
qed

lemma clean_addWord:
  assumes idem: "\<And>x. normalizeWord js (normalizeWord js x) = normalizeWord js x"
    and cl: "clean js (wordDatabase st)"
  shows "clean js (wordDatabase (snd (addWord js x y st)))"
proof (cases js x y st rule: addWord_cases)
  case rejected
  with cl show ?thesis by simp
next
  case (inserted a b)
  let ?s = "normalizeWord js a" and ?t = "normalizeWord js b"
  let ?st' = "snd (addWord_insert ?s ?t st)"
  have new: "?t \<notin> set (listed (wordDatabase st) ?s)"
    using inserted(5) by (simp add: addWord_insert_fst)
  have ok: "storable js ?s ?t" using idem inserted(3) by (rule checks_stable)
  have db: "map_of (wordDatabase ?st')
      = (map_of (wordDatabase st))(?s \<mapsto> listed (wordDatabase st) ?s @ [?t])"
    using inserted(5) by (rule addWord_insert_db)
  have old: "distinct (listed (wordDatabase st) ?s) \<and> (\<forall>u \<in> set (listed (wordDatabase st) ?s). storable js ?s u)"
    using cl by (cases "map_of (wordDatabase st) ?s") (auto simp: clean_def listed_def)
  have "distinct (map fst (wordDatabase ?st'))"
    using cl by (simp add: clean_def addWord_insert_distinct)
  moreover have "ts \<noteq> [] \<and> distinct ts \<and> (\<forall>u \<in> set ts. storable js k u)"
    if "map_of (wordDatabase ?st') k = Some ts" for k ts
  proof (cases "k = ?s")
    case True
    with that db have "ts = listed (wordDatabase st) ?s @ [?t]" by simp
    with old new ok True show ?thesis by auto
  next
    case False
    with that db have "map_of (wordDatabase st) k = Some ts" by simp
    with cl show ?thesis by (simp add: clean_def)
  qed
  ultimately have "clean js (wordDatabase ?st')" unfolding clean_def by blast
  then show ?thesis using inserted(4) by simp
qed

lemma clean_run_ops:
  assumes idem: "\<And>x. normalizeWord js (normalizeWord js x) = normalizeWord js x"
  shows "clean js (wordDatabase (run_ops js ops emptyStore))"
proof -
  note keep = clean_addWord[OF idem]
  let ?P = "\<lambda>st. clean js (wordDatabase st)"
  have step: "?P st \<Longrightarrow> ?P (apply_op js st op)" for st op
  proof (cases op)
    case (Add x y)
    assume "?P st" then show ?thesis using Add by (simp add: keep)
  next
    case (AddMany ps)
    assume "?P st" then show ?thesis
      using AddMany addWords_loop_preserves[of ?P js, OF keep]
      by (simp add: addWords_def)
  next
    case Clear
    then show ?thesis by (simp add: clearDatabase_def clean_def)
  next
    case (ImportAll doc)
    assume "?P st" then show ?thesis
      using ImportAll importDatabase_preserves[of ?P js, OF keep] by simp
  next
    case Rebuild
    assume "?P st" then show ?thesis using Rebuild by (simp add: rebuildReverseDatabase_def)
  qed
  have "?P st \<Longrightarrow> ?P (foldl (apply_op js) st ops)" for st
    by (induction ops arbitrary: st) (simp_all add: step)
  moreover have "?P emptyStore" by (simp add: emptyStore_def clean_def)
  ultimately show ?thesis by (simp add: run_ops_def)
qed

lemma addWords_targets:
  assumes "\<forall>t \<in> set ts. storable js k t" "distinct ts"
    "set ts \<inter> set (listed (wordDatabase st) k) = {}"
  shows "map_of (wordDatabase (snd (addWords_loop js (map (\<lambda>t. (JStr k, JStr t)) ts) n st)))
     = (if ts = [] then map_of (wordDatabase st)
        else (map_of (wordDatabase st))(k \<mapsto> listed (wordDatabase st) k @ ts))"
  using assms
proof (induction ts arbitrary: n st)
  case Nil
  then show ?case by simp
next
  case (Cons t ts)
  let ?st1 = "snd (addWord_insert k t st)"
  from Cons.prems(1) have chk: "addWord_checks js (JStr k) (JStr t) = Some (k, t)"
    by (simp add: storable_def)
  from Cons.prems(3) have ins: "fst (addWord_insert k t st)"
    by (simp add: addWord_insert_fst)
  have db1: "map_of (wordDatabase ?st1)
      = (map_of (wordDatabase st))(k \<mapsto> listed (wordDatabase st) k @ [t])"
    using ins by (rule addWord_insert_db)
  then have l1: "listed (wordDatabase ?st1) k = listed (wordDatabase st) k @ [t]"
    by (simp add: listed_def)
  obtain st1 where r: "addWord_insert k t st = (True, st1)"
    using ins by (cases "addWord_insert k t st") auto
  have step: "snd (addWords_loop js (map (\<lambda>t. (JStr k, JStr t)) (t # ts)) n st)
      = snd (addWords_loop js (map (\<lambda>t. (JStr k, JStr t)) ts) (n + 1) ?st1)"
    using chk r by (simp add: addWord_def)
  have "map_of (wordDatabase (snd (addWords_loop js (map (\<lambda>t. (JStr k, JStr t)) ts) (n + 1) ?st1)))
     = (if ts = [] then map_of (wordDatabase ?st1)
        else (map_of (wordDatabase ?st1))(k \<mapsto> listed (wordDatabase ?st1) k @ ts))"
    using Cons.prems by (intro Cons.IH) (auto simp: l1)
  then show ?case unfolding step by (auto simp: db1 l1 fun_eq_iff)
qed

lemma clean_tail: "clean js (e # m) \<Longrightarrow> clean js m"
proof -
  assume c: "clean js (e # m)"
  obtain k ts where e: "e = (k, ts)" by (cases e)
  have "map_of (e # m) k' = Some ts'" if "map_of m k' = Some ts'" for k' ts'
  proof -
    from that have "k' \<in> fst ` set m" by (metis domI dom_map_of_conv_image_fst)
    with c have "k' \<noteq> k" by (auto simp: clean_def e)
    with that show ?thesis by (simp add: e)
  qed
  with c show ?thesis unfolding clean_def by (metis distinct.simps(2) list.simps(9))
qed

lemma addWords_entries:
  assumes "clean js m" "\<forall>k \<in> fst ` set m. map_of (wordDatabase st) k = None"
  shows "map_of (wordDatabase (snd (addWords_loop js (word_pairs m) n st)))
     = map_of (wordDatabase st) ++ map_of m"
  using assms
proof (induction m arbitrary: n st)
  case Nil
  then show ?case by (simp add: word_pairs_def)
next
  case (Cons e m)
  obtain k ts where e: "e = (k, ts)" by (cases e)
  let ?first = "map (\<lambda>t. (JStr k, JStr t)) ts"
  obtain n1 st1 where r1: "addWords_loop js ?first n st = (n1, st1)"
    by (cases "addWords_loop js ?first n st")
  have "map_of (e # m) k = Some ts" by (simp add: e)
  with Cons.prems(1) have ts: "ts \<noteq> []" "distinct ts" "\<forall>t \<in> set ts. storable js k t"
    unfolding clean_def by blast+
  from Cons.prems(2) have none: "map_of (wordDatabase st) k = None" by (simp add: e)
  then have "listed (wordDatabase st) k = []" by (simp add: listed_def)
  with ts have db1: "map_of (wordDatabase st1) = (map_of (wordDatabase st))(k \<mapsto> ts)"
    using addWords_targets[of ts js k st n] r1 by simp
  from Cons.prems(1) have k: "k \<notin> fst ` set m" by (auto simp: clean_def e)
  with Cons.prems(2) have "\<forall>k' \<in> fst ` set m. map_of (wordDatabase st1) k' = None"
    by (auto simp: db1 e)
  with Cons.prems(1) have ih: "map_of (wordDatabase (snd (addWords_loop js (word_pairs m) n1 st1)))
     = map_of (wordDatabase st1) ++ map_of m"
    by (intro Cons.IH) (auto dest: clean_tail)
  have wp: "word_pairs (e # m) = ?first @ word_pairs m"
    by (simp add: word_pairs_def e)
  have "snd (addWords_loop js (word_pairs (e # m)) n st) = snd (addWords_loop js (word_pairs m) n1 st1)"
    unfolding wp addWords_loop_append r1 by simp
  then have res: "map_of (wordDatabase (snd (addWords_loop js (word_pairs (e # m)) n st)))
     = map_of (wordDatabase st1) ++ map_of m"
    using ih by simp
  from k have "map_of m k = None" by (simp add: map_of_eq_None_iff)
  then have "map_of (wordDatabase st1) ++ map_of m = map_of (wordDatabase st) ++ map_of (e # m)"
    by (auto simp: db1 e fun_eq_iff map_add_def split: option.splits)
  then show ?case by (simp only: res)
qed

lemma entry_pairs_export:
  "entry_pairs (map (\<lambda>(source, targets). (source, JArr (map JStr targets))) m) = word_pairs m"
  by (induction m) (auto simp: entry_pairs_def word_pairs_def)

lemma Object_fromEntries_set: "set (Object_fromEntries m) = set m"
  by (auto simp: Object_fromEntries_def)

lemma Object_fromEntries_distinct:
  assumes "distinct (map fst m)"
  shows "distinct (map fst (Object_fromEntries m))"
proof -
  from assms have d: "distinct m" and i: "inj_on fst (set m)"
    by (simp_all add: distinct_map)
  have "distinct (Object_fromEntries m)"
    using d by (auto simp: Object_fromEntries_def)
  with i show ?thesis by (simp add: distinct_map Object_fromEntries_set)
qed

lemma Object_fromEntries_map_of:
  "distinct (map fst m) \<Longrightarrow> map_of (Object_fromEntries m) = map_of m"
  using map_of_inject_set[of "Object_fromEntries m" m]
  by (simp add: Object_fromEntries_distinct Object_fromEntries_set)

lemma clean_Object_fromEntries: "clean js m \<Longrightarrow> clean js (Object_fromEntries m)"
  by (simp add: clean_def Object_fromEntries_distinct Object_fromEntries_map_of)

lemma import_export_map:
  assumes "clean js (wordDatabase st)"
  shows "map_of (wordDatabase (snd (importDatabase js (Some (exportDatabase st)) emptyStore)))
     = map_of (wordDatabase st)"
proof -
  let ?F = "Object_fromEntries (wordDatabase st)"
  have "importDatabase js (Some (exportDatabase st)) emptyStore
      = addWords_loop js (word_pairs ?F) 0 emptyStore"
    by (simp add: importDatabase_def importDatabase_try_def exportDatabase_def
          import_entries_as_addWords entry_pairs_export)
  moreover have "map_of (wordDatabase (snd (addWords_loop js (word_pairs ?F) 0 emptyStore)))
      = map_of (wordDatabase emptyStore) ++ map_of ?F"
    using assms by (intro addWords_entries clean_Object_fromEntries) (simp_all add: emptyStore_def)
  moreover have "map_of ?F = map_of (wordDatabase st)"
    using assms by (simp add: clean_def Object_fromEntries_map_of)
  ultimately show ?thesis by (simp add: emptyStore_def)
qed

text \<open>
  With an engine for which normalizing twice is normalizing once, the import of the export
  rebuilds the primary mapping key by key.
\<close>

lemma roundtrip_when_idempotent:
  assumes idem: "\<And>x. normalizeWord js (normalizeWord js x) = normalizeWord js x"
  shows "map_of (wordDatabase (snd (importDatabase js
       (Some (exportDatabase (run_ops js ops emptyStore))) emptyStore)))
     = map_of (wordDatabase (run_ops js ops emptyStore))"
  using clean_run_ops[OF idem] by (rule import_export_map)

subsection \<open>The example engine normalizes idempotently\<close>

lemma ws_range: "isWhiteSpace c \<Longrightarrow> c < 0x41 \<or> c = 0xA0 \<or> 0x17F < c"
  unfolding isWhiteSpace_def by auto

lemma lower_unit_low: "c < 0x41 \<Longrightarrow> lower_unit c = [c]"
  by (simp add: lower_unit_def)

lemma lower_unit_high: "0x17F < c \<Longrightarrow> lower_unit c = [c]"
  by (simp add: lower_unit_def)

lemma lower_unit_mid: "0x5A < c \<Longrightarrow> c < 0xC0 \<Longrightarrow> lower_unit c = [c]"
  by (simp add: lower_unit_def)

lemma lower_unit_mid2: "0xDE < c \<Longrightarrow> c < 0x100 \<Longrightarrow> lower_unit c = [c]"
  by (simp add: lower_unit_def)

lemma lower_unit_odd:
  "odd c \<Longrightarrow> c < 0x139 \<or> 0x148 < c \<and> c < 0x179 \<Longrightarrow> 0x100 \<le> c \<Longrightarrow> lower_unit c = [c]"
  by (auto simp: lower_unit_def)

lemma lower_unit_even: "even c \<Longrightarrow> 0x138 \<le> c \<and> c \<le> 0x148 \<or> 0x17A \<le> c \<Longrightarrow> lower_unit c = [c]"
  by (auto simp: lower_unit_def)

lemma lower_unit_image:
  assumes "d \<in> set (lower_unit c)"
  shows "(d = c \<and> lower_unit c = [c]) \<or> (0x61 \<le> d \<and> d \<le> 0x7A) \<or> (0xE0 \<le> d \<and> d \<le> 0xFE) \<or> d = 0x69 \<or> d = 0x307
    \<or> d = 0xFF
    \<or> (odd d \<and> 0x100 \<le> d \<and> (d < 0x139 \<or> 0x148 < d \<and> d < 0x179))
    \<or> (even d \<and> (0x138 \<le> d \<and> d \<le> 0x148 \<or> 0x17A \<le> d \<and> d \<le> 0x17F))"
proof -
  let ?P1 = "0x41 \<le> c \<and> c \<le> 0x5A"
  let ?P2 = "0xC0 \<le> c \<and> c \<le> 0xDE \<and> c \<noteq> 0xD7"
  let ?P3 = "c = 0x130"
  let ?P4 = "c = 0x178"
  let ?P5 = "(0x100 \<le> c \<and> c \<le> 0x137 \<or> 0x14A \<le> c \<and> c \<le> 0x177) \<and> even c"
  let ?P6 = "(0x139 \<le> c \<and> c \<le> 0x148 \<or> 0x179 \<le> c \<and> c \<le> 0x17E) \<and> odd c"
  consider (1) ?P1 | (2) "\<not> ?P1" ?P2 | (3) "\<not> ?P1" "\<not> ?P2" ?P3
    | (4) "\<not> ?P1" "\<not> ?P2" "\<not> ?P3" ?P4
    | (5) "\<not> ?P1" "\<not> ?P2" "\<not> ?P3" "\<not> ?P4" ?P5
    | (6) "\<not> ?P1" "\<not> ?P2" "\<not> ?P3" "\<not> ?P4" "\<not> ?P5" ?P6
    | (7) "\<not> ?P1" "\<not> ?P2" "\<not> ?P3" "\<not> ?P4" "\<not> ?P5" "\<not> ?P6"
    by blast
  then show ?thesis
  proof cases
    case 1
    then have "lower_unit c = [c + 0x20]" by (simp add: lower_unit_def)
    with assms 1 show ?thesis by simp
  next
    case 2
    then have "lower_unit c = [c + 0x20]" by (simp add: lower_unit_def)
    with assms 2 show ?thesis by simp
  next
    case 3
    then have "lower_unit c = [0x69, 0x307]" by (simp add: lower_unit_def)
    with assms have "d = 0x69 \<or> d = 0x307" by simp
    then show ?thesis by blast
  next
    case 4
    then have "lower_unit c = [0xFF]" by (simp add: lower_unit_def)
    with assms show ?thesis by simp
  next
    case 5
    then have "lower_unit c = [c + 1]" by (simp add: lower_unit_def)
    with assms have d: "d = c + 1" by simp
    from 5(5) have "odd d \<and> 0x100 \<le> d \<and> (d < 0x139 \<or> 0x148 < d \<and> d < 0x179)"
      unfolding d by presburger
    then show ?thesis by blast
  next
    case 6
    then have "lower_unit c = [c + 1]" by (simp add: lower_unit_def)
    with assms have d: "d = c + 1" by simp
    from 6(6) have "even d \<and> (0x138 \<le> d \<and> d \<le> 0x148 \<or> 0x17A \<le> d \<and> d \<le> 0x17F)"
      unfolding d by presburger
    then show ?thesis by blast
  next
    case 7
    then have "lower_unit c = [c]" by (simp add: lower_unit_def)
    with assms show ?thesis by simp
  qed
qed

lemma lower_unit_fixed: "d \<in> set (lower_unit c) \<Longrightarrow> lower_unit d = [d]"
  using lower_unit_image[of d c] lower_unit_mid[of d] lower_unit_mid2[of d]
    lower_unit_high[of d] lower_unit_odd[of d] lower_unit_even[of d]
  by auto

lemma lower_unit_ws: "isWhiteSpace c \<Longrightarrow> lower_unit c = [c]"
  using ws_range[of c] lower_unit_low[of c] lower_unit_high[of c] lower_unit_mid[of c]
  by auto

lemma nonws_range: "0x61 \<le> d \<Longrightarrow> d \<le> 0x1000 \<Longrightarrow> d \<noteq> 0xA0 \<Longrightarrow> \<not> isWhiteSpace d"
  by (simp add: isWhiteSpace_def)

lemma lower_unit_nonws:
  assumes "\<not> isWhiteSpace c" "d \<in> set (lower_unit c)"
  shows "\<not> isWhiteSpace d"
  using lower_unit_image[OF assms(2)] assms(1) nonws_range[of d]
  by auto

lemma lower_unit_nonempty: "lower_unit c \<noteq> []"
  using lower_unit_image[of "hd (lower_unit c)" c] lower_unit_def[of c]
  by (auto split: if_splits)

lemma latinLowerCase_append: "latinLowerCase (a @ b) = latinLowerCase a @ latinLowerCase b"
  by (simp add: latinLowerCase_def)

lemma latinLowerCase_Cons: "latinLowerCase (c # cs) = lower_unit c @ latinLowerCase cs"
  by (simp add: latinLowerCase_def)

lemma latinLowerCase_Nil: "latinLowerCase [] = []"
  by (simp add: latinLowerCase_def)

lemma latinLowerCase_fixed: "(\<forall>d \<in> set ds. lower_unit d = [d]) \<Longrightarrow> latinLowerCase ds = ds"
  by (induction ds) (simp_all add: latinLowerCase_def)

lemma latinLowerCase_idem: "latinLowerCase (latinLowerCase s) = latinLowerCase s"
proof (rule latinLowerCase_fixed, rule ballI)
  fix d assume "d \<in> set (latinLowerCase s)"
  then obtain c where "d \<in> set (lower_unit c)" by (auto simp: latinLowerCase_def)
  then show "lower_unit d = [d]" by (rule lower_unit_fixed)
qed

lemma dropWhile_last:
  "xs \<noteq> [] \<Longrightarrow> \<not> P (last xs) \<Longrightarrow> dropWhile P xs \<noteq> [] \<and> last (dropWhile P xs) = last xs"
  by (induction xs) (auto split: if_splits)

lemma trim_noEdge: "noEdgeSpace (trim s)"
proof -
  let ?u = "dropWhile isWhiteSpace s"
  let ?v = "dropWhile isWhiteSpace (rev ?u)"
  show ?thesis
  proof (cases "?v = []")
    case True
    then show ?thesis by (simp add: trim_def noEdgeSpace_def)
  next
    case False
    then have hv: "\<not> isWhiteSpace (hd ?v)" by (rule hd_dropWhile)
    from False have u: "?u \<noteq> []" by (cases ?u) simp_all
    then have hu: "\<not> isWhiteSpace (hd ?u)" by (rule hd_dropWhile)
    from u have "last (rev ?u) = hd ?u" by (simp add: last_rev)
    with hu u have "last ?v = hd ?u"
      using dropWhile_last[of "rev ?u" isWhiteSpace] by simp
    with hu hv False show ?thesis
      by (simp add: trim_def noEdgeSpace_def hd_rev last_rev)
  qed
qed

lemma trim_id: "noEdgeSpace s \<Longrightarrow> trim s = s"
proof (cases "s = []")
  case True
  then show ?thesis by (simp add: trim_def)
next
  case False
  assume "noEdgeSpace s"
  with False have h: "\<not> isWhiteSpace (hd s)" and l: "\<not> isWhiteSpace (last s)"
    by (simp_all add: noEdgeSpace_def)
  from h False have 1: "dropWhile isWhiteSpace s = s" by (cases s) simp_all
  from l False have "\<not> isWhiteSpace (hd (rev s))" by (simp add: hd_rev)
  with False have 2: "dropWhile isWhiteSpace (rev s) = rev s" by (cases "rev s") simp_all
  show ?thesis by (simp add: trim_def 1 2)
qed

lemma latinLowerCase_noEdge:
  assumes "noEdgeSpace s"
  shows "noEdgeSpace (latinLowerCase s)"
proof (cases "s = []")
  case True
  then show ?thesis by (simp add: latinLowerCase_def noEdgeSpace_def)
next
  case False
  with assms have h: "\<not> isWhiteSpace (hd s)" and l: "\<not> isWhiteSpace (last s)"
    by (simp_all add: noEdgeSpace_def)
  from False obtain c cs where s1: "s = c # cs" by (cases s) auto
  from False obtain bs e where s2: "s = bs @ [e]" by (cases s rule: rev_cases) auto
  have "hd (latinLowerCase s) = hd (lower_unit c)"
    by (simp add: s1 latinLowerCase_Cons lower_unit_nonempty)
  moreover have "hd (lower_unit c) \<in> set (lower_unit c)"
    by (simp add: lower_unit_nonempty)
  ultimately have 1: "\<not> isWhiteSpace (hd (latinLowerCase s))"
    using h s1 lower_unit_nonws[of c] by simp
  have "last (latinLowerCase s) = last (lower_unit e)"
    by (simp add: s2 latinLowerCase_append latinLowerCase_Cons latinLowerCase_Nil lower_unit_nonempty)
  moreover have "last (lower_unit e) \<in> set (lower_unit e)"
    by (simp add: lower_unit_nonempty)
  ultimately have 2: "\<not> isWhiteSpace (last (latinLowerCase s))"
    using l s2 lower_unit_nonws[of e] by simp
  from 1 2 show ?thesis by (simp add: noEdgeSpace_def)
qed

lemma collapse_nonws_prefix:
  "\<forall>d \<in> set ds. \<not> isWhiteSpace d \<Longrightarrow> collapseWhitespace (ds @ r) = ds @ collapseWhitespace r"
  by (induction ds) simp_all

lemma dropWhile_nonws_prefix:
  "ds \<noteq> [] \<Longrightarrow> \<forall>d \<in> set ds. \<not> isWhiteSpace d \<Longrightarrow> dropWhile isWhiteSpace (ds @ r) = ds @ r"
  by (cases ds) simp_all

lemma dropWhile_latinLowerCase:
  "dropWhile isWhiteSpace (latinLowerCase cs) = latinLowerCase (dropWhile isWhiteSpace cs)"
proof (induction cs)
  case Nil
  then show ?case by (simp add: latinLowerCase_def)
next
  case (Cons c cs)
  show ?case
  proof (cases "isWhiteSpace c")
    case True
    then show ?thesis using Cons.IH by (simp add: latinLowerCase_Cons lower_unit_ws)
  next
    case False
    then have "\<forall>d \<in> set (lower_unit c). \<not> isWhiteSpace d"
      using lower_unit_nonws by blast
    then have "dropWhile isWhiteSpace (lower_unit c @ latinLowerCase cs) = lower_unit c @ latinLowerCase cs"
      using lower_unit_nonempty by (rule dropWhile_nonws_prefix[rotated])
    with False show ?thesis by (simp add: latinLowerCase_Cons)
  qed
qed

lemma latinLowerCase_collapse:
  "latinLowerCase (collapseWhitespace s) = collapseWhitespace (latinLowerCase s)"
proof (induction s rule: collapseWhitespace.induct)
  case 1
  then show ?case by (simp add: latinLowerCase_def)
next
  case (2 c cs)
  show ?case
  proof (cases "isWhiteSpace c")
    case True
    have sp: "lower_unit 0x20 = [0x20]" by (simp add: lower_unit_def)
    from True show ?thesis
      using 2(1) by (simp add: latinLowerCase_Cons lower_unit_ws sp dropWhile_latinLowerCase)
  next
    case False
    then have "\<forall>d \<in> set (lower_unit c). \<not> isWhiteSpace d"
      using lower_unit_nonws by blast
    then have "collapseWhitespace (lower_unit c @ latinLowerCase cs)
        = lower_unit c @ collapseWhitespace (latinLowerCase cs)"
      by (rule collapse_nonws_prefix)
    with False show ?thesis using 2(2) by (simp add: latinLowerCase_Cons)
  qed
qed

lemma dropWhile_collapse:
  "u = [] \<or> \<not> isWhiteSpace (hd u) \<Longrightarrow> dropWhile isWhiteSpace (collapseWhitespace u) = collapseWhitespace u"
  by (cases u) auto

lemma collapse_idem: "collapseWhitespace (collapseWhitespace s) = collapseWhitespace s"
proof (induction s rule: collapseWhitespace.induct)
  case 1
  then show ?case by simp
next
  case (2 c cs)
  show ?case
  proof (cases "isWhiteSpace c")
    case True
    let ?u = "dropWhile isWhiteSpace cs"
    have "?u = [] \<or> \<not> isWhiteSpace (hd ?u)" using hd_dropWhile by blast
    then have "dropWhile isWhiteSpace (collapseWhitespace ?u) = collapseWhitespace ?u"
      by (rule dropWhile_collapse)
    moreover have sp: "isWhiteSpace 0x20" by (simp add: isWhiteSpace_def)
    ultimately show ?thesis using True 2(1) by simp
  next
    case False
    then show ?thesis using 2(2) by simp
  qed
qed

lemma collapse_last:
  "s \<noteq> [] \<Longrightarrow> \<not> isWhiteSpace (last s)
   \<Longrightarrow> collapseWhitespace s \<noteq> [] \<and> last (collapseWhitespace s) = last s"
proof (induction s rule: collapseWhitespace.induct)
  case 1
  then show ?case by simp
next
  case (2 c cs)
  show ?case
  proof (cases "isWhiteSpace c")
    case True
    with 2(4) have cs: "cs \<noteq> []" by auto
    with 2(4) have l: "\<not> isWhiteSpace (last cs)" by simp
    let ?u = "dropWhile isWhiteSpace cs"
    from cs l have u: "?u \<noteq> [] \<and> last ?u = last cs" by (rule dropWhile_last)
    with l have "collapseWhitespace ?u \<noteq> [] \<and> last (collapseWhitespace ?u) = last ?u"
      using 2(1)[OF True] by simp
    with u True cs show ?thesis by simp
  next
    case False
    show ?thesis
    proof (cases "cs = []")
      case True
      with False show ?thesis by simp
    next
      case ne: False
      with 2(4) have "\<not> isWhiteSpace (last cs)" by simp
      with ne have "collapseWhitespace cs \<noteq> [] \<and> last (collapseWhitespace cs) = last cs"
        using 2(2)[OF False] by simp
      with False ne show ?thesis by simp
    qed
  qed
qed

lemma collapse_noEdge:
  assumes "noEdgeSpace s"
  shows "noEdgeSpace (collapseWhitespace s)"
proof (cases s)
  case Nil
  then show ?thesis by (simp add: noEdgeSpace_def)
next
  case (Cons c cs)
  with assms have h: "\<not> isWhiteSpace c" and l: "\<not> isWhiteSpace (last s)"
    by (simp_all add: noEdgeSpace_def)
  from l Cons have "last (collapseWhitespace s) = last s"
    using collapse_last[of s] by simp
  with h l Cons show ?thesis by (simp add: noEdgeSpace_def)
qed

lemma normalizeWord_idem:
  "normalizeWord latinEngine (normalizeWord latinEngine x) = normalizeWord latinEngine x"
proof (cases "x = []")
  case True
  then show ?thesis by (simp add: normalizeWord_def)
next
  case False
  let ?n = "collapseWhitespace (latinLowerCase (trim x))"
  have ne: "noEdgeSpace ?n"
    by (intro collapse_noEdge latinLowerCase_noEdge trim_noEdge)
  have "collapseWhitespace (latinLowerCase (trim ?n)) = collapseWhitespace (latinLowerCase ?n)"
    using ne by (simp add: trim_id)
  also have "\<dots> = collapseWhitespace (collapseWhitespace (latinLowerCase (latinLowerCase (trim x))))"
    by (simp add: latinLowerCase_collapse)
  also have "\<dots> = ?n"
    by (simp add: latinLowerCase_idem collapse_idem)
  finally show ?thesis using False by (simp add: normalizeWord_def)
qed

text \<open>
  Claim C2. For a store built from the empty store by \<open>addWord\<close> and \<open>addWords\<close> (and also by
  the other operations of \<open>store_op\<close>), importing its export into a fresh empty store
  gives a primary mapping with the same set of keys and, under every key, the same list of
  targets. The lower case is that of the table of Basic Latin, Latin-1 Supplement and Latin
  Extended-A.
\<close>

theorem export_import_roundtrip:
  "set (map fst (wordDatabase (snd (importDatabase latinEngine
       (Some (exportDatabase (run_ops latinEngine ops emptyStore))) emptyStore))))
     = set (map fst (wordDatabase (run_ops latinEngine ops emptyStore)))
   \<and> map_of (wordDatabase (snd (importDatabase latinEngine
       (Some (exportDatabase (run_ops latinEngine ops emptyStore))) emptyStore))) k
     = map_of (wordDatabase (run_ops latinEngine ops emptyStore)) k"
proof -
  let ?st = "run_ops latinEngine ops emptyStore"
  let ?st' = "snd (importDatabase latinEngine (Some (exportDatabase ?st)) emptyStore)"
  have m: "map_of (wordDatabase ?st') = map_of (wordDatabase ?st)"
    using normalizeWord_idem by (rule roundtrip_when_idempotent)
  then have "dom (map_of (wordDatabase ?st')) = dom (map_of (wordDatabase ?st))" by simp
  then have "fst ` set (wordDatabase ?st') = fst ` set (wordDatabase ?st)"
    by (simp add: dom_map_of_conv_image_fst)
  with m show ?thesis by simp
qed

section \<open>Properties of the page functions\<close>

lemmas page_eval = exampleElement_def blankPage_def questionHeading_def questionPage_def
  correctBanner_def correctNoAnswerPage_def textInput_def correctTypedPage_def
  answerItem_def correctItemPage_def
  wrongBanner_def solutionSpan_def wrongRevealedPage_def wrongExplained_def
  wrongExplainedPage_def optionButton_def
  selectionWithInputPage_def repeatedOptionPage_def longOptionsPage_def smallWord_def tiePage_def
  awaiting_def getText_def isUIText_def
  uiPatterns_def scoringCandidate_def elementScore_def fontSizeOf_def isHeadingTag_def
  wordLikeClass_def matchesAt_def foldCase_def findAnswerOptions_def findAnswerInput_def
  findAll_def dedup_def extractWordPairs_def itemPairs_def detectExerciseType_def
  scoringStrategy_def selectorStrategy_def findCurrentQuestion_def noValidQuestion_def

lemma find_noMatches: "find (noMatches n) = None"
  by (induction n) (simp_all add: noMatches_def)

lemma find_append: "find (xs @ ys) = (case find xs of Some el \<Rightarrow> Some el | None \<Rightarrow> find ys)"
  by (induction xs rule: find.induct) simp_all

lemma findAll_results_noMatches: "findAll_results (noMatches n) = []"
  by (induction n) (simp_all add: noMatches_def)

lemma findAll_results_append:
  "findAll_results (xs @ ys) = findAll_results xs @ findAll_results ys"
  by (induction xs rule: findAll_results.induct) simp_all

lemma prominentStrategy_noMatches: "prominentStrategy js (noMatches n) = None"
  by (induction n) (simp_all add: noMatches_def)

lemma prominentStrategy_append:
  "prominentStrategy js (xs @ ys)
     = (case prominentStrategy js xs of Some text \<Rightarrow> Some text | None \<Rightarrow> prominentStrategy js ys)"
  by (induction js xs rule: prominentStrategy.induct) (simp_all split: option.splits)

lemmas query_eval = find_noMatches find_append findAll_results_noMatches findAll_results_append
  prominentStrategy_noMatches prominentStrategy_append

subsection \<open>The classifier\<close>

lemma set_findAll_results: "set (findAll_results selectors) = matches selectors"
  by (induction selectors rule: findAll_results.induct) (auto simp: matches_def)

lemma find_matched: "find selectors \<noteq> None \<longleftrightarrow> matched selectors"
proof -
  have "find selectors \<noteq> None \<longleftrightarrow> findAll_results selectors \<noteq> []"
    by (induction selectors rule: find.induct) simp_all
  also have "\<dots> \<longleftrightarrow> matched selectors"
    unfolding matched_def set_findAll_results[symmetric] by simp
  finally show ?thesis .
qed

lemma dedup_set: "set (dedup xs) = set xs"
  by (simp add: dedup_def)

lemma dedup_distinct: "distinct (dedup xs)"
  by (simp add: dedup_def)

text \<open>
  The options that \<open>findAnswerOptions\<close> returns are the counted candidates, each once.
\<close>

lemma findAnswerOptions_counted:
  "set (findAnswerOptions p) = countedOptions p \<and> distinct (findAnswerOptions p)"
  by (auto simp: findAnswerOptions_def countedOptions_def findAll_def dedup_set dedup_distinct
        set_findAll_results Let_def)

lemma length_findAnswerOptions: "length (findAnswerOptions p) = card (countedOptions p)"
  using findAnswerOptions_counted[of p] distinct_card[of "findAnswerOptions p"] by simp

text \<open>
  Claim C7, as the code has it. \<open>detectExerciseType\<close> answers \<open>selection\<close> exactly when at
  least two distinct elements among the matches of the answer-option selectors have a
  trimmed text of 1 to 199 code units, whether or not an input is present; an element that
  several selectors match counts once, and an element with no text or with 200 units or
  more does not count. It answers \<open>typing\<close> exactly when fewer than two elements count and
  an answer-input selector matches; then \<open>game\<close>, \<open>test\<close> and \<open>vocabulary\<close>, each only when
  every earlier check failed; and \<open>null\<close> exactly when all five checks fail.
\<close>

theorem detectExerciseType_priority:
  "(2 \<le> card (countedOptions p) \<and> matched (answerInputMatches p) \<longrightarrow>
        detectExerciseType p = Some Selection)
   \<and> (detectExerciseType p = Some Selection \<longleftrightarrow> 2 \<le> card (countedOptions p))
   \<and> (detectExerciseType p = Some Typing \<longleftrightarrow>
        card (countedOptions p) < 2 \<and> matched (answerInputMatches p))
   \<and> (detectExerciseType p = Some Game \<longleftrightarrow>
        card (countedOptions p) < 2 \<and> \<not> matched (answerInputMatches p)
        \<and> matched (gameContainerMatches p))
   \<and> (detectExerciseType p = Some Test \<longleftrightarrow>
        card (countedOptions p) < 2 \<and> \<not> matched (answerInputMatches p)
        \<and> \<not> matched (gameContainerMatches p) \<and> matched (testContainerMatches p))
   \<and> (detectExerciseType p = Some Vocabulary \<longleftrightarrow>
        card (countedOptions p) < 2 \<and> \<not> matched (answerInputMatches p)
        \<and> \<not> matched (gameContainerMatches p) \<and> \<not> matched (testContainerMatches p)
        \<and> extractWordPairs p \<noteq> [])
   \<and> (detectExerciseType p = None \<longleftrightarrow>
        card (countedOptions p) < 2 \<and> \<not> matched (answerInputMatches p)
        \<and> \<not> matched (gameContainerMatches p) \<and> \<not> matched (testContainerMatches p)
        \<and> extractWordPairs p = [])"
proof -
  have i: "findAnswerInput p \<noteq> None \<longleftrightarrow> matched (answerInputMatches p)"
    unfolding findAnswerInput_def by (rule find_matched)
  have g: "find (gameContainerMatches p) \<noteq> None \<longleftrightarrow> matched (gameContainerMatches p)"
    by (rule find_matched)
  have t: "find (testContainerMatches p) \<noteq> None \<longleftrightarrow> matched (testContainerMatches p)"
    by (rule find_matched)
  show ?thesis
    unfolding detectExerciseType_def Let_def length_findAnswerOptions i g t
    by (cases "extractWordPairs p") simp_all
qed

theorem detectExerciseType_priority_witness:
  "2 \<le> card (countedOptions selectionWithInputPage)
   \<and> matched (answerInputMatches selectionWithInputPage)
   \<and> detectExerciseType selectionWithInputPage = Some Selection
   \<and> findAll_results (answerOptionsMatches repeatedOptionPage)
       = [optionButton 4 (ascii ''cat''), optionButton 4 (ascii ''cat''),
          optionButton 4 (ascii ''cat'')]
   \<and> card (countedOptions repeatedOptionPage) < 2
   \<and> detectExerciseType repeatedOptionPage = Some Typing"
proof -
  have c: "card (countedOptions selectionWithInputPage) = 2"
    unfolding length_findAnswerOptions[symmetric]
    by (simp add: page_eval query_eval str_eval)
  have m: "matched (answerInputMatches selectionWithInputPage)"
    unfolding find_matched[symmetric] by (simp add: page_eval query_eval)
  have r: "findAll_results (answerOptionsMatches repeatedOptionPage)
       = [optionButton 4 (ascii ''cat''), optionButton 4 (ascii ''cat''),
          optionButton 4 (ascii ''cat'')]"
    by (simp add: repeatedOptionPage_def)
  have t: "detectExerciseType repeatedOptionPage = Some Typing"
    by (simp add: page_eval query_eval str_eval)
  from detectExerciseType_priority[of selectionWithInputPage] c m
  have s: "detectExerciseType selectionWithInputPage = Some Selection" by simp
  from detectExerciseType_priority[of repeatedOptionPage] t
  have "card (countedOptions repeatedOptionPage) < 2" by simp
  with c m r s t show ?thesis by simp
qed

text \<open>
  Two distinct answer buttons, each with a text of 200 units, and an input: both
  candidates carry text and the classifier answers \<open>typing\<close>.
\<close>

theorem long_options_counterexample:
  "findAll (answerOptionsMatches longOptionsPage)
     = [optionButton 4 (replicate 200 0x61), optionButton 5 (replicate 200 0x62)]
   \<and> length (getText (optionButton 4 (replicate 200 0x61))) = 200
   \<and> length (getText (optionButton 5 (replicate 200 0x62))) = 200
   \<and> findAnswerInput longOptionsPage = Some (textInput 6 [])
   \<and> detectExerciseType longOptionsPage = Some Typing"
  by (simp add: page_eval query_eval str_eval)

subsection \<open>The scoring strategy\<close>

lemma scoringLoop_step:
  "scoringLoop js h (el # els) best b =
     (if scoringCandidate js el \<and> js_less b (elementScore js h el)
      then scoringLoop js h els (Some (getText el)) (elementScore js h el)
      else scoringLoop js h els best b)"
  by (simp add: scoringCandidate_def Let_def)

lemma scoringLoop_keeps:
  "(\<forall>el \<in> set els. scoringCandidate js el \<longrightarrow> \<not> js_less b (elementScore js h el))
   \<Longrightarrow> scoringLoop js h els best b = best"
proof (induction els)
  case Nil
  then show ?case by simp
next
  case (Cons el els)
  then have "\<not> (scoringCandidate js el \<and> js_less b (elementScore js h el))" by auto
  with Cons show ?case unfolding scoringLoop_step by auto
qed

lemma scoringLoop_first_max:
  assumes "i < length els" "scoringCandidate js (els ! i)"
    "js_less b (elementScore js h (els ! i))"
    "\<forall>j < length els. i < j \<longrightarrow> scoringCandidate js (els ! j) \<longrightarrow>
        \<not> js_less (elementScore js h (els ! i)) (elementScore js h (els ! j))"
    "\<forall>j < i. scoringCandidate js (els ! j) \<longrightarrow>
        js_less (elementScore js h (els ! j)) (elementScore js h (els ! i))"
  shows "scoringLoop js h els best b = Some (getText (els ! i))"
  using assms
proof (induction els arbitrary: i best b)
  case Nil
  then show ?case by simp
next
  case (Cons el els)
  show ?case
  proof (cases i)
    case 0
    have "\<forall>e \<in> set els. scoringCandidate js e \<longrightarrow>
        \<not> js_less (elementScore js h el) (elementScore js h e)"
    proof (intro ballI impI)
      fix e assume "e \<in> set els" "scoringCandidate js e"
      then obtain j where "j < length els" "els ! j = e" by (auto simp: in_set_conv_nth)
      with Cons.prems(4)[rule_format, of "Suc j"] \<open>scoringCandidate js e\<close> 0
      show "\<not> js_less (elementScore js h el) (elementScore js h e)" by simp
    qed
    then have "scoringLoop js h els (Some (getText el)) (elementScore js h el)
        = Some (getText el)"
      by (rule scoringLoop_keeps)
    with Cons.prems(2,3) 0 show ?thesis unfolding scoringLoop_step by auto
  next
    case (Suc i')
    let ?m = "elementScore js h (els ! i')"
    have i': "i' < length els" "scoringCandidate js (els ! i')"
      using Cons.prems Suc by simp_all
    have le: "\<forall>j < length els. i' < j \<longrightarrow> scoringCandidate js (els ! j) \<longrightarrow>
        \<not> js_less ?m (elementScore js h (els ! j))"
    proof (intro allI impI)
      fix j assume "j < length els" "i' < j" "scoringCandidate js (els ! j)"
      with Cons.prems(4)[rule_format, of "Suc j"] Suc
      show "\<not> js_less ?m (elementScore js h (els ! j))" by simp
    qed
    have lt: "\<forall>j < i'. scoringCandidate js (els ! j) \<longrightarrow> js_less (elementScore js h (els ! j)) ?m"
    proof (intro allI impI)
      fix j assume "j < i'" "scoringCandidate js (els ! j)"
      with Cons.prems(5)[rule_format, of "Suc j"] Suc
      show "js_less (elementScore js h (els ! j)) ?m" by simp
    qed
    have el: "scoringCandidate js el \<longrightarrow> js_less (elementScore js h el) ?m"
      using Cons.prems(5)[rule_format, of 0] Suc by simp
    have b: "js_less b ?m" using Cons.prems(3) Suc by simp
    show ?thesis
    proof (cases "scoringCandidate js el \<and> js_less b (elementScore js h el)")
      case True
      with el have "js_less (elementScore js h el) ?m" by simp
      then have "scoringLoop js h els (Some (getText el)) (elementScore js h el)
          = Some (getText (els ! i'))"
        using i' le lt by (intro Cons.IH) simp_all
      with True show ?thesis unfolding scoringLoop_step by (auto simp: Suc)
    next
      case False
      have "scoringLoop js h els best b = Some (getText (els ! i'))"
        using i' le lt b by (intro Cons.IH) simp_all
      with False show ?thesis unfolding scoringLoop_step by (auto simp: Suc)
    qed
  qed
qed

text \<open>
  Claim C8. In the scoring strategy of \<open>findCurrentQuestion\<close>, with the scores as the engine
  computes them: the text returned is that of the first element, in the order of
  \<open>querySelectorAll('*')\<close>, among the scored elements with the greatest score. An element
  scored later does not replace it unless its score is strictly greater, so of two
  elements with the same score the earlier one is kept. The strategy is a function of the
  page alone, so a second run on an unchanged page returns the same text.
\<close>

theorem scoring_tie_break:
  assumes "i < length (allElements p)" "scoringCandidate js (allElements p ! i)"
    "js_less (Finite 0) (elementScore js (innerHeight p) (allElements p ! i))"
    "\<forall>j < length (allElements p). i < j \<longrightarrow> scoringCandidate js (allElements p ! j) \<longrightarrow>
        \<not> js_less (elementScore js (innerHeight p) (allElements p ! i))
                  (elementScore js (innerHeight p) (allElements p ! j))"
    "\<forall>j < i. scoringCandidate js (allElements p ! j) \<longrightarrow>
        js_less (elementScore js (innerHeight p) (allElements p ! j))
                (elementScore js (innerHeight p) (allElements p ! i))"
  shows "scoringStrategy js p = Some (getText (allElements p ! i))"
  unfolding scoringStrategy_def using assms by (rule scoringLoop_first_max)

theorem scoring_tie_break_witness:
  "scoringCandidate latinEngine (allElements tiePage ! 3)
   \<and> elementScore latinEngine (innerHeight tiePage) (allElements tiePage ! 3) = Finite 24
   \<and> scoringCandidate latinEngine (allElements tiePage ! 4)
   \<and> elementScore latinEngine (innerHeight tiePage) (allElements tiePage ! 4) = Finite 32
   \<and> scoringCandidate latinEngine (allElements tiePage ! 5)
   \<and> elementScore latinEngine (innerHeight tiePage) (allElements tiePage ! 5) = Finite 32
   \<and> getText (allElements tiePage ! 5) = ascii ''Hund''
   \<and> scoringStrategy latinEngine tiePage = Some (ascii ''Katze'')"
proof -
  let ?p = tiePage
  let ?h = "innerHeight ?p"
  let ?a = "exampleElement 4 ''DIV'' [] (ascii ''Katze'')"
  let ?b = "exampleElement 5 ''DIV'' [] (ascii ''Hund'')"
  have els: "allElements ?p = [exampleElement 0 ''HTML'' [] [], exampleElement 1 ''HEAD'' [] [],
      exampleElement 2 ''BODY'' [] [], smallWord, ?a, ?b]"
    by (simp add: tiePage_def blankPage_def)
  have h: "?h = 600" by (simp add: tiePage_def blankPage_def)
  have n0: "\<not> scoringCandidate latinEngine (exampleElement 0 ''HTML'' [] [])"
    and n1: "\<not> scoringCandidate latinEngine (exampleElement 1 ''HEAD'' [] [])"
    and n2: "\<not> scoringCandidate latinEngine (exampleElement 2 ''BODY'' [] [])"
    by (simp_all add: scoringCandidate_def exampleElement_def)
  have cs: "scoringCandidate latinEngine smallWord" by (simp add: page_eval str_eval)
  have ca: "scoringCandidate latinEngine ?a" by (simp add: page_eval str_eval)
  have cb: "scoringCandidate latinEngine ?b" by (simp add: page_eval str_eval)
  have ss: "elementScore latinEngine 600 smallWord = Finite 24" by (simp add: page_eval str_eval)
  have sa: "elementScore latinEngine 600 ?a = Finite 32" by (simp add: page_eval str_eval)
  have sb: "elementScore latinEngine 600 ?b = Finite 32" by (simp add: page_eval str_eval)
  have ta: "getText ?a = ascii ''Katze''" by (simp add: page_eval str_eval)
  have tb: "getText ?b = ascii ''Hund''" by (simp add: page_eval str_eval)
  have 1: "4 < length (allElements ?p)" by (simp add: els)
  have 2: "scoringCandidate latinEngine (allElements ?p ! 4)" using ca by (simp add: els)
  have 3: "js_less (Finite 0) (elementScore latinEngine ?h (allElements ?p ! 4))"
    using sa by (simp add: els h)
  have "\<forall>el \<in> set (allElements ?p). scoringCandidate latinEngine el \<longrightarrow>
      \<not> js_less (elementScore latinEngine ?h (allElements ?p ! 4)) (elementScore latinEngine ?h el)"
    using n0 n1 n2 ss sa sb by (simp add: els h)
  then have 4: "\<forall>j < length (allElements ?p). 4 < j \<longrightarrow>
      scoringCandidate latinEngine (allElements ?p ! j) \<longrightarrow>
      \<not> js_less (elementScore latinEngine ?h (allElements ?p ! 4))
                (elementScore latinEngine ?h (allElements ?p ! j))"
    by (simp add: all_set_conv_all_nth)
  have 5: "\<forall>j < 4. scoringCandidate latinEngine (allElements ?p ! j) \<longrightarrow>
      js_less (elementScore latinEngine ?h (allElements ?p ! j))
              (elementScore latinEngine ?h (allElements ?p ! 4))"
  proof (intro allI impI)
    fix j :: nat
    assume "j < 4" and c: "scoringCandidate latinEngine (allElements ?p ! j)"
    then have "j = 0 \<or> j = 1 \<or> j = 2 \<or> j = 3" by arith
    with c n0 n1 n2 have "j = 3" by (auto simp: els)
    then show "js_less (elementScore latinEngine ?h (allElements ?p ! j))
              (elementScore latinEngine ?h (allElements ?p ! 4))"
      using ss sa by (simp add: els h)
  qed
  from scoring_tie_break[OF 1 2 3 4 5] ta tb ss sa sb cs ca cb show ?thesis
    by (simp add: els h)
qed

subsection \<open>\<open>isUIText\<close>\<close>

text \<open>
  Claim C6. \<open>isUIText\<close> is true of \<open>123456\<close>, \<open>1700000000000\<close>, \<open>OK\<close> (as written and in
  lower case), \<open>next\<close> and the Czech word for "correctly" (\<open>spr\<close>, U+00E1, \<open>vn\<close>, U+011B), and
  false of \<open>Haus\<close>, of the Czech word for "house" (\<open>d\<close>, U+016F, \<open>m\<close>) and of
  \<open>magnifique\<close>, as written and in lower case. The letter U+016F counts as a letter: the
  word for "house" has three letters, and U+016F followed by one more letter reaches the
  minimum of two, while followed by a digit it does not. All these strings lie in the
  three Latin blocks, where the lower case is that of the table.
\<close>

theorem isUIText_examples:
  "isUIText latinEngine (ascii ''123456'')
   \<and> isUIText latinEngine (ascii ''1700000000000'')
   \<and> isUIText latinEngine (ascii ''OK'')
   \<and> isUIText latinEngine (toLowerCase latinEngine (ascii ''OK''))
   \<and> isUIText latinEngine (ascii ''next'')
   \<and> isUIText latinEngine (ascii ''spr'' @ [0xE1] @ ascii ''vn'' @ [0x11B])
   \<and> \<not> isUIText latinEngine (ascii ''Haus'')
   \<and> \<not> isUIText latinEngine (toLowerCase latinEngine (ascii ''Haus''))
   \<and> \<not> isUIText latinEngine (ascii ''d'' @ [0x16F] @ ascii ''m'')
   \<and> \<not> isUIText latinEngine (toLowerCase latinEngine (ascii ''d'' @ [0x16F] @ ascii ''m''))
   \<and> \<not> isUIText latinEngine (ascii ''magnifique'')
   \<and> \<not> isUIText latinEngine (toLowerCase latinEngine (ascii ''magnifique''))
   \<and> letterCount (ascii ''d'' @ [0x16F] @ ascii ''m'') = 3
   \<and> letterCount (ascii ''dm'') = 2 \<and> isUIText latinEngine ([0x16F] @ ascii ''1'')
   \<and> \<not> isUIText latinEngine ([0x16F] @ ascii ''m'')"
proof -
  have 1: "isUIText latinEngine (ascii ''123456'')"
    by (simp add: isUIText_def uiPatterns_def str_eval)
  have 2: "isUIText latinEngine (ascii ''1700000000000'')"
    by (simp add: isUIText_def uiPatterns_def str_eval)
  have 3: "isUIText latinEngine (ascii ''OK'')
      \<and> isUIText latinEngine (toLowerCase latinEngine (ascii ''OK''))"
    by (simp add: isUIText_def uiPatterns_def str_eval)
  have 4: "isUIText latinEngine (ascii ''next'')"
    by (simp add: isUIText_def uiPatterns_def str_eval)
  have 5: "isUIText latinEngine (ascii ''spr'' @ [0xE1] @ ascii ''vn'' @ [0x11B])"
    by (simp add: isUIText_def uiPatterns_def str_eval)
  have 6: "\<not> isUIText latinEngine (ascii ''Haus'')
      \<and> \<not> isUIText latinEngine (toLowerCase latinEngine (ascii ''Haus''))"
    by (simp add: isUIText_def uiPatterns_def str_eval)
  have 7: "\<not> isUIText latinEngine (ascii ''d'' @ [0x16F] @ ascii ''m'')
      \<and> \<not> isUIText latinEngine (toLowerCase latinEngine (ascii ''d'' @ [0x16F] @ ascii ''m''))"
    by (simp add: isUIText_def uiPatterns_def str_eval)
  have 8: "\<not> isUIText latinEngine (ascii ''magnifique'')
      \<and> \<not> isUIText latinEngine (toLowerCase latinEngine (ascii ''magnifique''))"
    by (simp add: isUIText_def uiPatterns_def str_eval)
  have 9: "letterCount (ascii ''d'' @ [0x16F] @ ascii ''m'') = 3 \<and> letterCount (ascii ''dm'') = 2"
    by (simp add: str_eval)
  have 10: "isUIText latinEngine ([0x16F] @ ascii ''1'')
      \<and> \<not> isUIText latinEngine ([0x16F] @ ascii ''m'')"
    by (simp add: isUIText_def uiPatterns_def str_eval)
  from 1 2 3 4 5 6 7 8 9 10 show ?thesis by blast
qed

section \<open>Properties of the feedback tracker\<close>

lemmas tracker_eval = learnFromCorrectAnswer_def learnFromIncorrectAnswer_def trackQuestion_def
  checkForFeedbackAndLearn_def findCorrectAnswer_def answerFromInput_def
  answerFromHighlighted_def answerFromActive_def answerFromFeedback_def feedbackPhrases_def
  findRevealedAnswer_def revealedFromFeedback_def answerPatterns_def colonOrSpace_def
  captureToLineEnd_def isLineTerminator_def committed_def inputValueNotString_def

text \<open>\<open>findCorrectAnswer\<close> raises exactly on a truthy \<open>value\<close> that is not a string.\<close>

lemma findCorrectAnswer_raises:
  "findCorrectAnswer js p = Inl e \<longleftrightarrow> e = TypeError \<and> inputValueNotString p"
proof (cases "findAnswerInput p")
  case None
  then show ?thesis
    by (simp add: findCorrectAnswer_def answerFromInput_def inputValueNotString_def
          split: option.splits)
next
  case (Some input)
  then show ?thesis
    by (cases "inputValue input")
       (auto simp: findCorrectAnswer_def answerFromInput_def inputValueNotString_def
             split: option.splits)
qed

lemma learnFromCorrectAnswer_waiting:
  assumes "lastQuestion tr = Some q" "q \<noteq> []"
  shows "learnFromCorrectAnswer js p (tr, st) =
     (case findCorrectAnswer js p of
        Inl e \<Rightarrow> Inl e
      | Inr found \<Rightarrow>
          Inr (case found of
                 None \<Rightarrow> (tr\<lparr>isWaitingForResult := False\<rparr>, st)
               | Some a \<Rightarrow>
                   if a = [] then (tr\<lparr>isWaitingForResult := False\<rparr>, st)
                   else if fst (addWord js (JStr q) (JStr a) st)
                   then (tr\<lparr>notifications := notifications tr @ [(q, a, Correct)],
                            isWaitingForResult := False\<rparr>, snd (addWord js (JStr q) (JStr a) st))
                   else (tr\<lparr>isWaitingForResult := False\<rparr>, snd (addWord js (JStr q) (JStr a) st))))"
  using assms
  by (auto simp: learnFromCorrectAnswer_def noValidQuestion_def
           split: sum.splits option.splits prod.splits bool.splits)

lemma learnFromIncorrectAnswer_waiting:
  assumes "lastQuestion tr = Some q" "q \<noteq> []"
  shows "learnFromIncorrectAnswer js p (tr, st) =
     (case findRevealedAnswer p of
        None \<Rightarrow> (tr\<lparr>isWaitingForResult := False\<rparr>, st)
      | Some a \<Rightarrow>
          if a = [] then (tr\<lparr>isWaitingForResult := False\<rparr>, st)
          else if fst (addWord js (JStr q) (JStr a) st)
          then (tr\<lparr>notifications := notifications tr @ [(q, a, Correction)],
                   isWaitingForResult := False\<rparr>, snd (addWord js (JStr q) (JStr a) st))
          else (tr\<lparr>isWaitingForResult := False\<rparr>, snd (addWord js (JStr q) (JStr a) st)))"
  using assms
  by (cases "findRevealedAnswer p")
     (auto simp: learnFromIncorrectAnswer_def noValidQuestion_def split: prod.splits bool.splits)

lemma learnFromCorrectAnswer_idle:
  assumes "lastQuestion tr = Some q" "q \<noteq> []"
    "learnFromCorrectAnswer js p (tr, st) = Inr s1"
  shows "\<exists>found. findCorrectAnswer js p = Inr found
           \<and> lastQuestion (fst s1) = Some q \<and> \<not> isWaitingForResult (fst s1)
           \<and> snd s1 = committed js q found st"
  using assms(3) assms(1) unfolding learnFromCorrectAnswer_waiting[OF assms(1,2)]
  by (auto simp: committed_def split: sum.splits option.splits if_splits)

lemma learnFromIncorrectAnswer_idle:
  assumes "lastQuestion tr = Some q" "q \<noteq> []"
  shows "lastQuestion (fst (learnFromIncorrectAnswer js p (tr, st))) = Some q
       \<and> \<not> isWaitingForResult (fst (learnFromIncorrectAnswer js p (tr, st)))
       \<and> snd (learnFromIncorrectAnswer js p (tr, st)) = committed js q (findRevealedAnswer p) st"
  using assms(1) unfolding learnFromIncorrectAnswer_waiting[OF assms]
  by (auto simp: committed_def split: option.splits)

lemma trackQuestion_same:
  assumes "findCurrentQuestion js p = None \<or> findCurrentQuestion js p = lastQuestion tr"
  shows "trackQuestion js p tr = tr"
  using assms by (auto simp: trackQuestion_def Let_def split: option.splits)

lemma check_after_tracking:
  assumes "lastQuestion (trackQuestion js p tr) = Some q" "q \<noteq> []"
    "isWaitingForResult (trackQuestion js p tr)"
  shows "checkForFeedbackAndLearn js p (tr, st) =
     (if find (correctFeedbackMatches p) \<noteq> None
      then (case learnFromCorrectAnswer js p (trackQuestion js p tr, st) of
              Inl e \<Rightarrow> (Some e, trackQuestion js p tr, st)
            | Inr s1 \<Rightarrow> (None, s1))
      else if find (incorrectFeedbackMatches p) \<noteq> None
      then (None, learnFromIncorrectAnswer js p (trackQuestion js p tr, st))
      else (None, trackQuestion js p tr, st))"
proof -
  have w: "\<not> isWaitingForResult (fst s1)"
    if "learnFromCorrectAnswer js p (trackQuestion js p tr, st) = Inr s1" for s1
    using learnFromCorrectAnswer_idle[OF assms(1,2) that] by blast
  from assms show ?thesis
    unfolding checkForFeedbackAndLearn_def
    using w by (auto simp: noValidQuestion_def Let_def split: sum.splits)
qed

text \<open>
  Claim C1, as the code has it. Let the tracker, once the pass has looked for a new
  question, await the result of \<open>q\<close>. When a correct-feedback element is present and
  \<open>findCorrectAnswer\<close> returns, the pass returns with the tracker idle, whatever was
  found, and with the store that \<open>addWord(q, answer)\<close> leaves for a non-empty answer and
  the unchanged store otherwise. When \<open>findCorrectAnswer\<close> raises, which it does exactly
  when the first match of the answer-input selectors has a truthy \<open>value\<close> that is not a
  string, the \<open>TypeError\<close> leaves the pass, the tracker goes on awaiting the result of \<open>q\<close>
  and the store is unchanged. When only an incorrect-feedback element is present the pass
  returns with the tracker idle and the store committed from \<open>findRevealedAnswer\<close>. When
  neither is present, the tracker goes on awaiting the result of \<open>q\<close> and the store is
  unchanged.
\<close>

theorem feedback_resolves_to_idle:
  assumes "lastQuestion (trackQuestion js p tr) = Some q" "q \<noteq> []"
    "isWaitingForResult (trackQuestion js p tr)"
  shows
    "(find (correctFeedbackMatches p) \<noteq> None \<longrightarrow>
        (\<forall>found. findCorrectAnswer js p = Inr found \<longrightarrow>
           fst (checkForFeedbackAndLearn js p (tr, st)) = None
           \<and> lastQuestion (fst (snd (checkForFeedbackAndLearn js p (tr, st)))) = Some q
           \<and> \<not> isWaitingForResult (fst (snd (checkForFeedbackAndLearn js p (tr, st))))
           \<and> snd (snd (checkForFeedbackAndLearn js p (tr, st))) = committed js q found st)
        \<and> (inputValueNotString p \<longrightarrow>
             findCorrectAnswer js p = Inl TypeError
             \<and> checkForFeedbackAndLearn js p (tr, st)
                 = (Some TypeError, trackQuestion js p tr, st)))
     \<and> (\<not> inputValueNotString p \<longrightarrow> (\<exists>found. findCorrectAnswer js p = Inr found))
     \<and> (find (correctFeedbackMatches p) = None \<and> find (incorrectFeedbackMatches p) \<noteq> None \<longrightarrow>
        fst (checkForFeedbackAndLearn js p (tr, st)) = None
        \<and> lastQuestion (fst (snd (checkForFeedbackAndLearn js p (tr, st)))) = Some q
        \<and> \<not> isWaitingForResult (fst (snd (checkForFeedbackAndLearn js p (tr, st))))
        \<and> snd (snd (checkForFeedbackAndLearn js p (tr, st)))
            = committed js q (findRevealedAnswer p) st)
     \<and> (find (correctFeedbackMatches p) = None \<and> find (incorrectFeedbackMatches p) = None \<longrightarrow>
        checkForFeedbackAndLearn js p (tr, st) = (None, trackQuestion js p tr, st))"
proof -
  let ?T = "trackQuestion js p tr"
  let ?R = "checkForFeedbackAndLearn js p (tr, st)"
  have 1: "fst ?R = None \<and> lastQuestion (fst (snd ?R)) = Some q
        \<and> \<not> isWaitingForResult (fst (snd ?R)) \<and> snd (snd ?R) = committed js q found st"
    if c: "find (correctFeedbackMatches p) \<noteq> None" and f: "findCorrectAnswer js p = Inr found"
    for found
  proof -
    from f obtain s1 where s1: "learnFromCorrectAnswer js p (?T, st) = Inr s1"
      unfolding learnFromCorrectAnswer_waiting[OF assms(1,2)] by simp
    from learnFromCorrectAnswer_idle[OF assms(1,2) s1] f
    have "lastQuestion (fst s1) = Some q \<and> \<not> isWaitingForResult (fst s1)
        \<and> snd s1 = committed js q found st" by auto
    moreover have "?R = (None, s1)"
      unfolding check_after_tracking[OF assms] using c s1 by simp
    ultimately show ?thesis by simp
  qed
  have 2: "findCorrectAnswer js p = Inl TypeError \<and> ?R = (Some TypeError, ?T, st)"
    if c: "find (correctFeedbackMatches p) \<noteq> None" and n: "inputValueNotString p"
  proof -
    from n have f: "findCorrectAnswer js p = Inl TypeError"
      by (simp add: findCorrectAnswer_raises)
    then have "learnFromCorrectAnswer js p (?T, st) = Inl TypeError"
      unfolding learnFromCorrectAnswer_waiting[OF assms(1,2)] by simp
    then have "?R = (Some TypeError, ?T, st)"
      unfolding check_after_tracking[OF assms] using c by simp
    with f show ?thesis by simp
  qed
  have 3: "\<exists>found. findCorrectAnswer js p = Inr found" if "\<not> inputValueNotString p"
  proof (cases "findCorrectAnswer js p")
    case (Inl e)
    with that show ?thesis by (simp add: findCorrectAnswer_raises)
  next
    case (Inr found)
    then show ?thesis by simp
  qed
  have 4: "fst ?R = None \<and> lastQuestion (fst (snd ?R)) = Some q
        \<and> \<not> isWaitingForResult (fst (snd ?R))
        \<and> snd (snd ?R) = committed js q (findRevealedAnswer p) st"
    if "find (correctFeedbackMatches p) = None" "find (incorrectFeedbackMatches p) \<noteq> None"
    unfolding check_after_tracking[OF assms]
    using that learnFromIncorrectAnswer_idle[OF assms(1,2), of js p st] by simp
  have 5: "?R = (None, ?T, st)"
    if "find (correctFeedbackMatches p) = None" "find (incorrectFeedbackMatches p) = None"
    unfolding check_after_tracking[OF assms] using that by simp
  from 1 2 3 4 5 show ?thesis by blast
qed

text \<open>
  On the page with the question \<open>Katze\<close> and the feedback element \<open>Correct!\<close> the
  extractor returns \<open>null\<close>; the pass stores nothing and leaves the tracker idle.
\<close>

theorem feedback_empty_extraction_counterexample:
  "lastQuestion (awaiting (ascii ''Katze'')) = Some (ascii ''Katze'')
   \<and> isWaitingForResult (awaiting (ascii ''Katze''))
   \<and> find (correctFeedbackMatches correctNoAnswerPage) = Some correctBanner
   \<and> findCorrectAnswer latinEngine correctNoAnswerPage = Inr None
   \<and> checkForFeedbackAndLearn latinEngine correctNoAnswerPage
        (awaiting (ascii ''Katze''), emptyStore)
      = (None,
         \<lparr>lastQuestion = Some (ascii ''Katze''), isWaitingForResult = False, notifications = []\<rparr>,
         emptyStore)"
  by (simp add: page_eval query_eval str_eval tracker_eval)

theorem feedback_resolves_to_idle_witness:
  "lastQuestion (awaiting (ascii ''Katze'')) = Some (ascii ''Katze'')
   \<and> ascii ''Katze'' \<noteq> []
   \<and> isWaitingForResult (awaiting (ascii ''Katze''))
   \<and> findCurrentQuestion latinEngine correctTypedPage = Some (ascii ''Katze'')
   \<and> find (correctFeedbackMatches correctTypedPage) \<noteq> None
   \<and> findCorrectAnswer latinEngine correctTypedPage = Inr (Some (ascii ''cat''))
   \<and> fst (checkForFeedbackAndLearn latinEngine correctTypedPage
         (awaiting (ascii ''Katze''), emptyStore)) = None
   \<and> \<not> isWaitingForResult (fst (snd (checkForFeedbackAndLearn latinEngine correctTypedPage
         (awaiting (ascii ''Katze''), emptyStore))))
   \<and> findTranslation latinEngine (ascii ''Katze'')
         (snd (snd (checkForFeedbackAndLearn latinEngine correctTypedPage
            (awaiting (ascii ''Katze''), emptyStore)))) = Some [ascii ''cat'']
   \<and> findCurrentQuestion latinEngine correctItemPage = Some (ascii ''Katze'')
   \<and> find (correctFeedbackMatches correctItemPage) \<noteq> None
   \<and> inputValueNotString correctItemPage
   \<and> checkForFeedbackAndLearn latinEngine correctItemPage
         (awaiting (ascii ''Katze''), emptyStore)
       = (Some TypeError, awaiting (ascii ''Katze''), emptyStore)
   \<and> findCurrentQuestion latinEngine wrongRevealedPage = Some (ascii ''Katze'')
   \<and> find (correctFeedbackMatches wrongRevealedPage) = None
   \<and> find (incorrectFeedbackMatches wrongRevealedPage) \<noteq> None
   \<and> findRevealedAnswer wrongRevealedPage = Some (ascii ''cat'')
   \<and> \<not> isWaitingForResult (fst (snd (checkForFeedbackAndLearn latinEngine wrongRevealedPage
         (awaiting (ascii ''Katze''), emptyStore))))
   \<and> findTranslation latinEngine (ascii ''Katze'')
         (snd (snd (checkForFeedbackAndLearn latinEngine wrongRevealedPage
            (awaiting (ascii ''Katze''), emptyStore)))) = Some [ascii ''cat'']
   \<and> findCurrentQuestion latinEngine questionPage = Some (ascii ''Katze'')
   \<and> find (correctFeedbackMatches questionPage) = None
   \<and> find (incorrectFeedbackMatches questionPage) = None
   \<and> checkForFeedbackAndLearn latinEngine questionPage (awaiting (ascii ''Katze''), emptyStore)
       = (None, awaiting (ascii ''Katze''), emptyStore)"
proof -
  let ?q = "ascii ''Katze''"
  let ?tr = "awaiting ?q"
  have a1: "lastQuestion ?tr = Some ?q" by (simp add: awaiting_def)
  have a2: "?q \<noteq> []" by (simp add: ascii_def)
  have a3: "isWaitingForResult ?tr" by (simp add: awaiting_def)
  have q1: "findCurrentQuestion latinEngine correctTypedPage = Some ?q"
    by (simp add: page_eval query_eval str_eval)
  have q2: "findCurrentQuestion latinEngine wrongRevealedPage = Some ?q"
    by (simp add: page_eval query_eval str_eval)
  have q3: "findCurrentQuestion latinEngine questionPage = Some ?q"
    by (simp add: page_eval query_eval str_eval)
  have q4: "findCurrentQuestion latinEngine correctItemPage = Some ?q"
    by (simp add: page_eval query_eval str_eval)
  have c1: "find (correctFeedbackMatches correctTypedPage) \<noteq> None"
    by (simp add: page_eval query_eval)
  have c2: "find (correctFeedbackMatches wrongRevealedPage) = None
      \<and> find (incorrectFeedbackMatches wrongRevealedPage) \<noteq> None"
    by (simp add: page_eval query_eval)
  have c3: "find (correctFeedbackMatches questionPage) = None
      \<and> find (incorrectFeedbackMatches questionPage) = None"
    by (simp add: page_eval query_eval)
  have c4: "find (correctFeedbackMatches correctItemPage) \<noteq> None"
    by (simp add: page_eval query_eval)
  have f1: "findCorrectAnswer latinEngine correctTypedPage = Inr (Some (ascii ''cat''))"
    by (simp add: page_eval query_eval str_eval tracker_eval)
  have f2: "findRevealedAnswer wrongRevealedPage = Some (ascii ''cat'')"
    by (simp add: page_eval query_eval str_eval tracker_eval)
  have f4: "inputValueNotString correctItemPage"
    by (simp add: page_eval query_eval tracker_eval)
  have ne: "ascii ''cat'' \<noteq> []" by (simp add: ascii_def)
  have t: "findTranslation latinEngine ?q
        (snd (addWord latinEngine (JStr ?q) (JStr (ascii ''cat'')) emptyStore))
      = Some [ascii ''cat'']"
    by (simp add: store_eval str_eval)
  have k1: "trackQuestion latinEngine correctTypedPage ?tr = ?tr"
    using q1 a1 by (simp add: trackQuestion_same)
  have k2: "trackQuestion latinEngine wrongRevealedPage ?tr = ?tr"
    using q2 a1 by (simp add: trackQuestion_same)
  have k3: "trackQuestion latinEngine questionPage ?tr = ?tr"
    using q3 a1 by (simp add: trackQuestion_same)
  have k4: "trackQuestion latinEngine correctItemPage ?tr = ?tr"
    using q4 a1 by (simp add: trackQuestion_same)
  have r1: "fst (checkForFeedbackAndLearn latinEngine correctTypedPage (?tr, emptyStore)) = None
      \<and> \<not> isWaitingForResult (fst (snd (checkForFeedbackAndLearn latinEngine correctTypedPage
            (?tr, emptyStore))))
      \<and> snd (snd (checkForFeedbackAndLearn latinEngine correctTypedPage (?tr, emptyStore)))
          = snd (addWord latinEngine (JStr ?q) (JStr (ascii ''cat'')) emptyStore)"
    using feedback_resolves_to_idle[of latinEngine correctTypedPage ?tr ?q emptyStore]
      k1 a1 a2 a3 c1 f1 ne
    by (simp add: committed_def)
  have r2: "\<not> isWaitingForResult (fst (snd (checkForFeedbackAndLearn latinEngine wrongRevealedPage
            (?tr, emptyStore))))
      \<and> snd (snd (checkForFeedbackAndLearn latinEngine wrongRevealedPage (?tr, emptyStore)))
          = snd (addWord latinEngine (JStr ?q) (JStr (ascii ''cat'')) emptyStore)"
    using feedback_resolves_to_idle[of latinEngine wrongRevealedPage ?tr ?q emptyStore]
      k2 a1 a2 a3 c2 f2 ne
    by (simp add: committed_def)
  have r3: "checkForFeedbackAndLearn latinEngine questionPage (?tr, emptyStore)
      = (None, ?tr, emptyStore)"
    using feedback_resolves_to_idle[of latinEngine questionPage ?tr ?q emptyStore]
      k3 a1 a2 a3 c3 by simp
  have r4: "checkForFeedbackAndLearn latinEngine correctItemPage (?tr, emptyStore)
      = (Some TypeError, ?tr, emptyStore)"
    using feedback_resolves_to_idle[of latinEngine correctItemPage ?tr ?q emptyStore]
      k4 a1 a2 a3 c4 f4 by simp
  from a1 a2 a3 q1 q2 q3 q4 c1 c2 c3 c4 f1 f2 f4 r1 r2 r3 r4 t show ?thesis by simp
qed

text \<open>
  A feedback element that names the solution: the second pattern of \<open>findRevealedAnswer\<close>
  matches from \<open>right\<close> on and its group is the rest of the line.
\<close>

lemma findRevealedAnswer_explained:
  "findRevealedAnswer wrongExplainedPage = Some (ascii ''cat'')"
  by (simp add: page_eval query_eval str_eval tracker_eval)

text \<open>
  The phrase filter of \<open>findCorrectAnswer\<close> on a feedback text in capitals that begins with
  U+00C2 U+0152 U+201C: the flag \<open>i\<close> lets both alternatives match.
\<close>

lemma stripPhrases_example:
  "stripPhrases ([0xC2, 0x152, 0x201C] @ ascii ''SUPER cat'') = ascii '' cat''"
  by (simp add: str_eval tracker_eval page_eval)

end
